theory Spec2Isabelle
  imports Main
begin

section \<open>Strings and the finalize address\<close>

text \<open>
  A JavaScript string is a sequence of 16-bit code units. It is represented by the bytes
  of its UTF-8 encoding, as a \<^typ>\<open>string\<close>, and this encoding is extended to the strings
  that are not well formed: a surrogate code unit without its partner is written as the
  three bytes that UTF-8 gives to its value, which are \<^verbatim>\<open>ED\<close>, a byte from \<^verbatim>\<open>A0\<close> to
  \<^verbatim>\<open>BF\<close> and a byte from \<^verbatim>\<open>80\<close> to \<^verbatim>\<open>BF\<close>; a surrogate pair is one code point and
  has four bytes. Room identifiers and connection identities are such strings, compared by
  equality only.
\<close>

type_synonym socket_id = string
type_synonym room_id = string

datatype js_error = TypeError | URIError | FetchError | BodyError

text \<open>\<^verbatim>\<open>base.replace(/\/+$/, '')\<close>: the run of slashes that ends the string is removed.\<close>

definition strip_trailing_slashes :: "string \<Rightarrow> string" where
  "strip_trailing_slashes base = rev (dropWhile (\<lambda>c. c = CHR ''/'') (rev base))"

text \<open>The string holds a surrogate code unit that is not part of a pair.\<close>

fun has_unpaired_surrogate :: "string \<Rightarrow> bool" where
  "has_unpaired_surrogate [] = False"
| "has_unpaired_surrogate (c # cs) =
     (((of_char c :: nat) = 237 \<and>
       (case cs of [] \<Rightarrow> False | d # ds \<Rightarrow> 160 \<le> (of_char d :: nat) \<and> (of_char d :: nat) \<le> 191)) \<or>
      has_unpaired_surrogate cs)"

text \<open>
  \<^verbatim>\<open>encodeURIComponent\<close> raises a URIError on a string with an unpaired surrogate. On any
  other string it keeps the letters, the digits and \<^verbatim>\<open>- _ . ! ~ * ' ( )\<close>, and writes
  every other byte of the UTF-8 encoding as a percent sign and two upper-case hexadecimal
  digits.
\<close>

definition uri_unreserved :: "char \<Rightarrow> bool" where
  "uri_unreserved c =
     (let n = (of_char c :: nat) in
      (65 \<le> n \<and> n \<le> 90) \<or> (97 \<le> n \<and> n \<le> 122) \<or> (48 \<le> n \<and> n \<le> 57) \<or>
      c \<in> set ''-_.!~*()'' \<or> n = 39)"

definition hex_digit :: "nat \<Rightarrow> char" where
  "hex_digit d = ''0123456789ABCDEF'' ! (d mod 16)"

definition percent_encode :: "char \<Rightarrow> string" where
  "percent_encode c =
     [CHR ''%'', hex_digit ((of_char c :: nat) div 16), hex_digit ((of_char c :: nat) mod 16)]"

definition encode_octets :: "string \<Rightarrow> string" where
  "encode_octets s =
     concat (map (\<lambda>c. if uri_unreserved c then [c] else percent_encode c) s)"

definition encodeURIComponent :: "string \<Rightarrow> js_error + string" where
  "encodeURIComponent s =
     (if has_unpaired_surrogate s then Inl URIError else Inr (encode_octets s))"

text \<open>
  The address both handlers build:
  \<^verbatim>\<open>`${base.replace(/\/+$/,'')}/api/audio/finalize?roomId=${encodeURIComponent(roomId)}`\<close>.
\<close>

definition finalize_url :: "string \<Rightarrow> room_id \<Rightarrow> js_error + string" where
  "finalize_url base roomId =
     (case encodeURIComponent roomId of
        Inl e \<Rightarrow> Inl e
      | Inr q \<Rightarrow> Inr (strip_trailing_slashes base @ ''/api/audio/finalize?roomId='' @ q))"




section \<open>The room registry\<close>

text \<open>
  \<^verbatim>\<open>const rooms: Record<string, { users: string[] }> = {}\<close>. The registry is the list of
  the object's own properties in the order in which \<^verbatim>\<open>for (const roomId in rooms)\<close>
  enumerates them: the keys that are array indices first, in ascending numeric order, then
  the other keys in the order of their creation.
\<close>

record room =
  users :: "socket_id list"

type_synonym registry = "(room_id \<times> room) list"

definition is_digit :: "char \<Rightarrow> bool" where
  "is_digit c = (48 \<le> (of_char c :: nat) \<and> (of_char c :: nat) \<le> 57)"

definition decimal :: "string \<Rightarrow> nat" where
  "decimal s = foldl (\<lambda>n c. 10 * n + ((of_char c :: nat) - 48)) 0 s"

text \<open>An array index is the canonical decimal numeral of an integer from 0 to 2^32 - 2.\<close>

definition is_array_index :: "string \<Rightarrow> bool" where
  "is_array_index k =
     (case k of
        [] \<Rightarrow> False
      | c # cs \<Rightarrow>
          list_all is_digit k \<and> (if c = CHR ''0'' then cs = [] else True) \<and>
          decimal k < 4294967295)"

fun insert_index :: "room_id \<Rightarrow> room \<Rightarrow> registry \<Rightarrow> registry" where
  "insert_index k v [] = [(k, v)]"
| "insert_index k v ((k', v') # rest) =
     (if is_array_index k' \<and> decimal k' < decimal k
      then (k', v') # insert_index k v rest
      else (k, v) # (k', v') # rest)"

text \<open>The assignment \<^verbatim>\<open>rooms[roomId] = { users: [] }\<close> to a key the object does not own.\<close>

definition create_property :: "room_id \<Rightarrow> room \<Rightarrow> registry \<Rightarrow> registry" where
  "create_property k v rooms =
     (if is_array_index k then insert_index k v rooms else rooms @ [(k, v)])"

text \<open>
  The object literal \<^verbatim>\<open>{}\<close> inherits from \<^verbatim>\<open>Object.prototype\<close>, so the read
  \<^verbatim>\<open>rooms[roomId]\<close> of a key the object does not own yields an inherited function or
  object (a truthy value without a \<^verbatim>\<open>users\<close> property) for these twelve names.
\<close>

definition object_prototype_keys :: "string list" where
  "object_prototype_keys =
     [''constructor'', ''__defineGetter__'', ''__defineSetter__'', ''hasOwnProperty'',
      ''__lookupGetter__'', ''__lookupSetter__'', ''isPrototypeOf'', ''propertyIsEnumerable'',
      ''toString'', ''valueOf'', ''__proto__'', ''toLocaleString'']"

datatype property = Undefined | OwnRoom room | Inherited

definition rooms_get :: "registry \<Rightarrow> room_id \<Rightarrow> property" where
  "rooms_get rooms roomId =
     (case map_of rooms roomId of
        Some rm \<Rightarrow> OwnRoom rm
      | None \<Rightarrow> if roomId \<in> set object_prototype_keys then Inherited else Undefined)"

text \<open>
  \<^verbatim>\<open>rooms[roomId].users\<close> followed by a read of \<^verbatim>\<open>length\<close> or a method call: on an
  inherited property \<^verbatim>\<open>users\<close> is \<^verbatim>\<open>undefined\<close> and the access raises a TypeError.
\<close>

definition room_users :: "registry \<Rightarrow> room_id \<Rightarrow> js_error + socket_id list" where
  "room_users rooms roomId =
     (case rooms_get rooms roomId of
        OwnRoom rm \<Rightarrow> Inr (users rm)
      | Undefined \<Rightarrow> Inl TypeError
      | Inherited \<Rightarrow> Inl TypeError)"

definition set_users :: "room_id \<Rightarrow> socket_id list \<Rightarrow> registry \<Rightarrow> registry" where
  "set_users roomId us rooms =
     map (\<lambda>(k, rm). if k = roomId then (k, rm\<lparr>users := us\<rparr>) else (k, rm)) rooms"

text \<open>\<^verbatim>\<open>delete rooms[roomId]\<close>.\<close>

definition delete_room :: "room_id \<Rightarrow> registry \<Rightarrow> registry" where
  "delete_room roomId rooms = filter (\<lambda>(k, rm). k \<noteq> roomId) rooms"

text \<open>The participant list of a room, empty for a room the registry does not hold.\<close>

definition participants :: "registry \<Rightarrow> room_id \<Rightarrow> socket_id list" where
  "participants rooms roomId = (case map_of rooms roomId of Some rm \<Rightarrow> users rm | None \<Rightarrow> [])"

definition room_ids :: "registry \<Rightarrow> room_id list" where
  "room_ids rooms = map fst rooms"

section \<open>Outbound events and calls\<close>

text \<open>
  What a handler asks of the transport and of the network, in the order of the calls. The
  payloads of the relay events are opaque, hence a type parameter.
\<close>

datatype 'p message =
    RoomFull room_id nat
  | UserJoined socket_id
  | UserLeft socket_id
  | VoiceOffer socket_id 'p room_id
  | VoiceAnswer socket_id 'p room_id
  | IceCandidate socket_id 'p

datatype 'p effect =
    SocketJoin socket_id room_id
  | SocketLeave socket_id room_id
  | EmitToSocket socket_id "'p message"
  | EmitToOthers socket_id string "'p message"
  | EmitTo string "'p message"
  | Fetch string

text \<open>
  \<^const>\<open>SocketJoin\<close> is \<^verbatim>\<open>socket.join(roomId)\<close>, \<^const>\<open>SocketLeave\<close> is
  \<^verbatim>\<open>socket.leave(roomId)\<close>, \<^const>\<open>EmitToSocket\<close> is \<^verbatim>\<open>socket.emit(...)\<close>,
  \<^const>\<open>EmitToOthers\<close> is \<^verbatim>\<open>socket.to(x).emit(...)\<close>, \<^const>\<open>EmitTo\<close> is
  \<^verbatim>\<open>io.to(x).emit(...)\<close> and \<^const>\<open>Fetch\<close> is \<^verbatim>\<open>fetch(url, { method: 'POST' })\<close>.
\<close>

section \<open>The finalize hook\<close>

text \<open>
  The network is a parameter: it decides, for the address requested, whether the promise
  of \<^verbatim>\<open>fetch\<close> is rejected or resolved, and for a response whether \<^verbatim>\<open>resp.json()\<close>
  and \<^verbatim>\<open>resp.text()\<close> succeed.
\<close>

record response =
  status :: nat
  json_ok :: bool
  text_ok :: bool

datatype fetch_result = Rejected | Resolved response

type_synonym network = "string \<Rightarrow> fetch_result"

text \<open>\<^verbatim>\<open>try { await resp.json(); } catch (e) { await resp.text(); }\<close>\<close>

definition read_body :: "response \<Rightarrow> js_error + unit" where
  "read_body resp =
     (if json_ok resp then Inr () else if text_ok resp then Inr () else Inl BodyError)"

text \<open>
  An asynchronous block is modelled by the list of addresses it requests and by how its
  promise settles: \<^const>\<open>Inl\<close> is a rejection, \<^const>\<open>Inr\<close> a fulfilment. When the
  address cannot be built, \<^verbatim>\<open>fetch\<close> is not called.
\<close>

definition tryFinalize :: "network \<Rightarrow> string \<Rightarrow> room_id \<Rightarrow> string list \<times> (js_error + response)" where
  "tryFinalize net base roomId =
     (case finalize_url base roomId of
        Inl e \<Rightarrow> ([], Inl e)
      | Inr url \<Rightarrow>
          ([url],
           case net url of
             Rejected \<Rightarrow> Inl FetchError
           | Resolved resp \<Rightarrow> (case read_body resp of Inl e \<Rightarrow> Inl e | Inr u \<Rightarrow> Inr resp)))"

text \<open>\<^verbatim>\<open>try { ... } catch (e) { }\<close> around a block whose value is not used.\<close>

definition catch_all :: "js_error + 'a \<Rightarrow> js_error + unit" where
  "catch_all r = (case r of Inl e \<Rightarrow> Inr () | Inr v \<Rightarrow> Inr ())"

text \<open>
  The block of the leave handler. \<^verbatim>\<open>if (resume)\<close> is false for an undefined variable
  and for the empty string.
\<close>

definition finalize_leave :: "string option \<Rightarrow> network \<Rightarrow> room_id \<Rightarrow> string list \<times> (js_error + unit)" where
  "finalize_leave resume net roomId =
     (case resume of
        None \<Rightarrow> ([], catch_all (Inr ()))
      | Some base \<Rightarrow>
          if base = [] then ([], catch_all (Inr ()))
          else (case tryFinalize net base roomId of
                  (requests, result) \<Rightarrow> (requests, catch_all (catch_all result))))"

text \<open>The block of the disconnect handler, which builds the address and reads the body itself.\<close>

definition finalize_disconnect :: "string option \<Rightarrow> network \<Rightarrow> room_id \<Rightarrow> string list \<times> (js_error + unit)" where
  "finalize_disconnect resume net roomId =
     (case resume of
        None \<Rightarrow> ([], catch_all (Inr ()))
      | Some base \<Rightarrow>
          if base = [] then ([], catch_all (Inr ()))
          else (case finalize_url base roomId of
                  Inl e \<Rightarrow> ([], catch_all (catch_all (Inl e :: js_error + unit)))
                | Inr url \<Rightarrow>
                    ([url],
                     catch_all (catch_all
                       (case net url of
                          Rejected \<Rightarrow> Inl FetchError
                        | Resolved resp \<Rightarrow> read_body resp)))))"

section \<open>The handlers\<close>

text \<open>\<^verbatim>\<open>if (!rooms[roomId]) { rooms[roomId] = { users: [] }; }\<close>\<close>

definition ensure_room :: "room_id \<Rightarrow> registry \<Rightarrow> registry" where
  "ensure_room roomId rooms =
     (case rooms_get rooms roomId of
        Undefined \<Rightarrow> create_property roomId \<lparr>users = []\<rparr> rooms
      | OwnRoom rm \<Rightarrow> rooms
      | Inherited \<Rightarrow> rooms)"

text \<open>
  \<^verbatim>\<open>join-voice-room\<close> of the server with the limit of ten users. The handler has no
  \<^verbatim>\<open>try\<close>: a TypeError leaves it as an exception.
\<close>

definition join_voice_room :: "socket_id \<Rightarrow> room_id \<Rightarrow> registry \<Rightarrow> js_error + registry \<times> 'p effect list" where
  "join_voice_room sid roomId rooms =
     (let rooms1 = ensure_room roomId rooms
      in case room_users rooms1 roomId of
           Inl e \<Rightarrow> Inl e
         | Inr us \<Rightarrow>
             if length us \<ge> 10 then Inr (rooms1, [EmitToSocket sid (RoomFull roomId 10)])
             else if sid \<in> set us then Inr (rooms1, [SocketJoin sid roomId])
             else Inr (set_users roomId (us @ [sid]) rooms1,
                       [SocketJoin sid roomId, EmitToOthers sid roomId (UserJoined sid)]))"

text \<open>\<^verbatim>\<open>join-voice-room\<close> of \<^verbatim>\<open>api/index.ts\<close>: the push and the broadcast are unconditional.\<close>

definition api_join_voice_room :: "socket_id \<Rightarrow> room_id \<Rightarrow> registry \<Rightarrow> js_error + registry \<times> 'p effect list" where
  "api_join_voice_room sid roomId rooms =
     (let rooms1 = ensure_room roomId rooms
      in case room_users rooms1 roomId of
           Inl e \<Rightarrow> Inl e
         | Inr us \<Rightarrow>
             Inr (set_users roomId (us @ [sid]) rooms1,
                  [SocketJoin sid roomId, EmitToOthers sid roomId (UserJoined sid)]))"

text \<open>
  The body of the \<^verbatim>\<open>try\<close> block of \<^verbatim>\<open>leave-voice-room\<close>: the registry and the calls
  made when the block is left, and the exception that left it, if any. The fetch is called
  before \<^verbatim>\<open>delete rooms[roomId]\<close>; the promise of the block is dropped.
\<close>

definition leave_try :: "string option \<Rightarrow> network \<Rightarrow> socket_id \<Rightarrow> room_id \<Rightarrow> registry \<Rightarrow> (registry \<times> 'p effect list) \<times> js_error option" where
  "leave_try resume net sid roomId rooms =
     (case rooms_get rooms roomId of
        Undefined \<Rightarrow> ((rooms, [SocketLeave sid roomId]), None)
      | Inherited \<Rightarrow> ((rooms, [SocketLeave sid roomId]), Some TypeError)
      | OwnRoom rm \<Rightarrow>
          (let us = filter (\<lambda>u. u \<noteq> sid) (users rm);
               rooms1 = set_users roomId us rooms;
               sent = [SocketLeave sid roomId, EmitTo roomId (UserLeft sid)]
           in if length us = 0
              then ((delete_room roomId rooms1,
                     sent @ map Fetch (fst (finalize_leave resume net roomId))), None)
              else ((rooms1, sent), None)))"

text \<open>\<^verbatim>\<open>catch (e) { }\<close>: whatever the block raised is discarded.\<close>

definition leave_voice_room :: "string option \<Rightarrow> network \<Rightarrow> socket_id \<Rightarrow> room_id \<Rightarrow> registry \<Rightarrow> js_error + registry \<times> 'p effect list" where
  "leave_voice_room resume net sid roomId rooms =
     (case leave_try resume net sid roomId rooms of (out, thrown) \<Rightarrow> Inr out)"

text \<open>
  The three relay handlers destructure their argument, \<^verbatim>\<open>({ roomId, offer, to }) => ...\<close>,
  and have no \<^verbatim>\<open>try\<close>: when the event comes without an argument or with \<^verbatim>\<open>null\<close>,
  the destructuring raises a TypeError that leaves the handler.
\<close>

datatype 'a argument = Nullish | Object 'a

definition voice_offer :: "socket_id \<Rightarrow> (room_id \<times> 'p \<times> string) argument \<Rightarrow> registry \<Rightarrow> js_error + registry \<times> 'p effect list" where
  "voice_offer sid arg rooms =
     (case arg of
        Nullish \<Rightarrow> Inl TypeError
      | Object (roomId, offer, to) \<Rightarrow> Inr (rooms, [EmitTo to (VoiceOffer sid offer roomId)]))"

definition voice_answer :: "socket_id \<Rightarrow> (room_id \<times> 'p \<times> string) argument \<Rightarrow> registry \<Rightarrow> js_error + registry \<times> 'p effect list" where
  "voice_answer sid arg rooms =
     (case arg of
        Nullish \<Rightarrow> Inl TypeError
      | Object (roomId, answer, to) \<Rightarrow> Inr (rooms, [EmitTo to (VoiceAnswer sid answer roomId)]))"

definition ice_candidate :: "socket_id \<Rightarrow> ('p \<times> string) argument \<Rightarrow> registry \<Rightarrow> js_error + registry \<times> 'p effect list" where
  "ice_candidate sid arg rooms =
     (case arg of
        Nullish \<Rightarrow> Inl TypeError
      | Object (candidate, to) \<Rightarrow> Inr (rooms, [EmitTo to (IceCandidate sid candidate)]))"

text \<open>
  \<^verbatim>\<open>disconnect\<close>: the loop over the rooms of the registry, in the order of enumeration.
  The result is the registry after the loop and the calls made.
\<close>

fun disconnect :: "string option \<Rightarrow> network \<Rightarrow> socket_id \<Rightarrow> registry \<Rightarrow> registry \<times> 'p effect list" where
  "disconnect resume net sid [] = ([], [])"
| "disconnect resume net sid ((roomId, rm) # rest) =
     (let us = filter (\<lambda>u. u \<noteq> sid) (users rm);
          later = disconnect resume net sid rest
      in if length us = 0
         then (fst later,
               EmitTo roomId (UserLeft sid) #
               map Fetch (fst (finalize_disconnect resume net roomId)) @ snd later)
         else ((roomId, rm\<lparr>users := us\<rparr>) # fst later,
               EmitTo roomId (UserLeft sid) # snd later))"

text \<open>\<^verbatim>\<open>disconnect\<close> of \<^verbatim>\<open>api/index.ts\<close>, which has no finalize block.\<close>

fun api_disconnect :: "socket_id \<Rightarrow> registry \<Rightarrow> registry \<times> 'p effect list" where
  "api_disconnect sid [] = ([], [])"
| "api_disconnect sid ((roomId, rm) # rest) =
     (let us = filter (\<lambda>u. u \<noteq> sid) (users rm);
          later = api_disconnect sid rest
      in if length us = 0
         then (fst later, EmitTo roomId (UserLeft sid) # snd later)
         else ((roomId, rm\<lparr>users := us\<rparr>) # fst later,
               EmitTo roomId (UserLeft sid) # snd later))"

section \<open>The server as a transition system\<close>

text \<open>
  The events of a connection. A relay event carries an object with its fields, or it
  carries no object (\<^verbatim>\<open>undefined\<close> or \<^verbatim>\<open>null\<close>).
\<close>

datatype 'p event =
    JoinVoiceRoom room_id
  | LeaveVoiceRoom room_id
  | VoiceOfferEv room_id 'p string
  | VoiceAnswerEv room_id 'p string
  | IceCandidateEv 'p string
  | VoiceOfferNoObject
  | VoiceAnswerNoObject
  | IceCandidateNoObject
  | Disconnect

definition handle :: "string option \<Rightarrow> network \<Rightarrow> socket_id \<Rightarrow> 'p event \<Rightarrow> registry \<Rightarrow> js_error + registry \<times> 'p effect list" where
  "handle resume net sid ev rooms =
     (case ev of
        JoinVoiceRoom roomId \<Rightarrow> join_voice_room sid roomId rooms
      | LeaveVoiceRoom roomId \<Rightarrow> leave_voice_room resume net sid roomId rooms
      | VoiceOfferEv roomId offer to \<Rightarrow> voice_offer sid (Object (roomId, offer, to)) rooms
      | VoiceAnswerEv roomId answer to \<Rightarrow> voice_answer sid (Object (roomId, answer, to)) rooms
      | IceCandidateEv candidate to \<Rightarrow> ice_candidate sid (Object (candidate, to)) rooms
      | VoiceOfferNoObject \<Rightarrow> voice_offer sid Nullish rooms
      | VoiceAnswerNoObject \<Rightarrow> voice_answer sid Nullish rooms
      | IceCandidateNoObject \<Rightarrow> ice_candidate sid Nullish rooms
      | Disconnect \<Rightarrow> Inr (disconnect resume net sid rooms))"

text \<open>
  A run handles the events of the connections one after the other, as the event loop does,
  and collects the calls made. An exception that leaves a handler ends the run.
\<close>

fun run :: "string option \<Rightarrow> network \<Rightarrow> (socket_id \<times> 'p event) list \<Rightarrow> registry \<Rightarrow> js_error + registry \<times> 'p effect list" where
  "run resume net [] rooms = Inr (rooms, [])"
| "run resume net ((sid, ev) # evs) rooms =
     (case handle resume net sid ev rooms of
        Inl e \<Rightarrow> Inl e
      | Inr (rooms1, effs) \<Rightarrow>
          (case run resume net evs rooms1 of
             Inl e \<Rightarrow> Inl e
           | Inr (rooms2, effs2) \<Rightarrow> Inr (rooms2, effs @ effs2)))"

text \<open>The same for the server of \<^verbatim>\<open>api/index.ts\<close>, which has no handler for leave-voice-room.\<close>

definition api_handle :: "socket_id \<Rightarrow> 'p event \<Rightarrow> registry \<Rightarrow> js_error + registry \<times> 'p effect list" where
  "api_handle sid ev rooms =
     (case ev of
        JoinVoiceRoom roomId \<Rightarrow> api_join_voice_room sid roomId rooms
      | LeaveVoiceRoom roomId \<Rightarrow> Inr (rooms, [])
      | VoiceOfferEv roomId offer to \<Rightarrow> voice_offer sid (Object (roomId, offer, to)) rooms
      | VoiceAnswerEv roomId answer to \<Rightarrow> voice_answer sid (Object (roomId, answer, to)) rooms
      | IceCandidateEv candidate to \<Rightarrow> ice_candidate sid (Object (candidate, to)) rooms
      | VoiceOfferNoObject \<Rightarrow> voice_offer sid Nullish rooms
      | VoiceAnswerNoObject \<Rightarrow> voice_answer sid Nullish rooms
      | IceCandidateNoObject \<Rightarrow> ice_candidate sid Nullish rooms
      | Disconnect \<Rightarrow> Inr (api_disconnect sid rooms))"

fun api_run :: "(socket_id \<times> 'p event) list \<Rightarrow> registry \<Rightarrow> js_error + registry \<times> 'p effect list" where
  "api_run [] rooms = Inr (rooms, [])"
| "api_run ((sid, ev) # evs) rooms =
     (case api_handle sid ev rooms of
        Inl e \<Rightarrow> Inl e
      | Inr (rooms1, effs) \<Rightarrow>
          (case api_run evs rooms1 of
             Inl e \<Rightarrow> Inl e
           | Inr (rooms2, effs2) \<Rightarrow> Inr (rooms2, effs @ effs2)))"

section \<open>Addressing in the transport\<close>

text \<open>
  Socket.IO addresses rooms: \<^verbatim>\<open>to(x)\<close> selects the connections that are in the room
  named \<^verbatim>\<open>x\<close>, and a connection is reached under its own identity because it is put into
  the room of that name when it connects. The adapter gives the members of every room.
  The handlers change it by \<^verbatim>\<open>socket.join\<close> and \<^verbatim>\<open>socket.leave\<close> only; that the
  transport takes a connection out of its rooms before the disconnect handler runs is not
  a call of the handlers and has no effect here.
\<close>

type_synonym adapter = "string \<Rightarrow> socket_id set"

fun recipients :: "adapter \<Rightarrow> 'p effect \<Rightarrow> socket_id set" where
  "recipients A (EmitToSocket sid m) = {sid}"
| "recipients A (EmitToOthers sid x m) = A x - {sid}"
| "recipients A (EmitTo x m) = A x"
| "recipients A (SocketJoin sid x) = {}"
| "recipients A (SocketLeave sid x) = {}"
| "recipients A (Fetch url) = {}"

fun adapter_step :: "'p effect \<Rightarrow> adapter \<Rightarrow> adapter" where
  "adapter_step (SocketJoin sid x) A = A(x := insert sid (A x))"
| "adapter_step (SocketLeave sid x) A = A(x := A x - {sid})"
| "adapter_step (EmitToSocket sid m) A = A"
| "adapter_step (EmitToOthers sid x m) A = A"
| "adapter_step (EmitTo x m) A = A"
| "adapter_step (Fetch url) A = A"

text \<open>What a connection receives from a list of calls, with the adapter following the joins and leaves.\<close>

fun received :: "adapter \<Rightarrow> socket_id \<Rightarrow> 'p effect list \<Rightarrow> 'p effect list" where
  "received A c [] = []"
| "received A c (e # es) =
     (if c \<in> recipients A e then e # received (adapter_step e A) c es
      else received (adapter_step e A) c es)"

section \<open>Predicates of the statements\<close>

text \<open>No room of the registry has an empty participant list, and no key occurs twice.\<close>

definition no_empty_room :: "registry \<Rightarrow> bool" where
  "no_empty_room rooms = list_all (\<lambda>(k, rm). users rm \<noteq> []) rooms"

definition wf_registry :: "registry \<Rightarrow> bool" where
  "wf_registry rooms = (distinct (map fst rooms) \<and> no_empty_room rooms)"

text \<open>No room of the registry has more than ten participants.\<close>

definition within_capacity :: "registry \<Rightarrow> bool" where
  "within_capacity rooms = list_all (\<lambda>(k, rm). length (users rm) \<le> 10) rooms"

text \<open>The rooms that a disconnect of the connection empties.\<close>

definition emptied_by :: "socket_id \<Rightarrow> registry \<Rightarrow> room_id list" where
  "emptied_by sid rooms = map fst (filter (\<lambda>(k, rm). filter (\<lambda>u. u \<noteq> sid) (users rm) = []) rooms)"

text \<open>A connection is reached under its own identity while it is in the room of that name.\<close>

definition in_own_room :: "adapter \<Rightarrow> socket_id \<Rightarrow> bool" where
  "in_own_room A c = (c \<in> A c)"

text \<open>
  The addresses requested for a room that has become empty: none when \<^verbatim>\<open>RESUME_BASE\<close>
  is not set or is the empty string, and none when the address cannot be built; else the
  finalize address, once.
\<close>

definition finalize_addresses :: "string option \<Rightarrow> room_id \<Rightarrow> string list" where
  "finalize_addresses resume roomId =
     (case resume of
        None \<Rightarrow> []
      | Some base \<Rightarrow>
          if base = [] then []
          else (case finalize_url base roomId of Inl e \<Rightarrow> [] | Inr url \<Rightarrow> [url]))"

definition is_fetch :: "'p effect \<Rightarrow> bool" where
  "is_fetch e = (case e of Fetch url \<Rightarrow> True | _ \<Rightarrow> False)"

definition is_user_joined :: "'p effect \<Rightarrow> bool" where
  "is_user_joined e =
     (case e of
        EmitToOthers sid x (UserJoined c) \<Rightarrow> True
      | EmitTo x (UserJoined c) \<Rightarrow> True
      | EmitToSocket sid (UserJoined c) \<Rightarrow> True
      | _ \<Rightarrow> False)"

definition is_user_left :: "'p effect \<Rightarrow> bool" where
  "is_user_left e =
     (case e of
        EmitToOthers sid x (UserLeft c) \<Rightarrow> True
      | EmitTo x (UserLeft c) \<Rightarrow> True
      | EmitToSocket sid (UserLeft c) \<Rightarrow> True
      | _ \<Rightarrow> False)"

section \<open>Properties of the finalize address\<close>














section \<open>The finalize address is normalised and encoded\<close>


lemmas url_simps =
  finalize_url_def strip_trailing_slashes_def encodeURIComponent_def encode_octets_def
  uri_unreserved_def percent_encode_def hex_digit_def



section \<open>Registry operations\<close>

lemma map_of_insert_index: "map_of (insert_index k v rooms) = (map_of rooms)(k \<mapsto> v)"
  by (induction rooms) (auto simp: fun_eq_iff)

lemma set_insert_index: "set (insert_index k v rooms) = insert (k, v) (set rooms)"
  by (induction rooms) (auto split: if_splits)

lemma distinct_insert_index:
  "k \<notin> set (map fst rooms) \<Longrightarrow> distinct (map fst rooms) \<Longrightarrow> distinct (map fst (insert_index k v rooms))"
  by (induction rooms) (auto simp: set_insert_index)

lemma map_of_create_property:
  "k \<notin> set (map fst rooms) \<Longrightarrow> map_of (create_property k v rooms) = (map_of rooms)(k \<mapsto> v)"
  by (auto simp: create_property_def map_of_insert_index fun_eq_iff map_add_def
      map_of_eq_None_iff [symmetric] split: option.splits)

lemma set_create_property: "set (create_property k v rooms) = insert (k, v) (set rooms)"
  by (simp add: create_property_def set_insert_index)

lemma distinct_create_property:
  "k \<notin> set (map fst rooms) \<Longrightarrow> distinct (map fst rooms) \<Longrightarrow> distinct (map fst (create_property k v rooms))"
  by (simp add: create_property_def distinct_insert_index)

lemma map_fst_set_users: "map fst (set_users r us rooms) = map fst rooms"
  by (induction rooms) (auto simp: set_users_def)

lemma map_of_set_users:
  "map_of (set_users r us rooms) k =
     (if k = r then map_option (\<lambda>rm. rm\<lparr>users := us\<rparr>) (map_of rooms r) else map_of rooms k)"
  by (induction rooms) (auto simp: set_users_def)

lemma set_users_same:
  "distinct (map fst rooms) \<Longrightarrow> map_of rooms r = Some rm \<Longrightarrow> users rm = us \<Longrightarrow> set_users r us rooms = rooms"
proof (induction rooms)
  case Nil
  then show ?case by simp
next
  case (Cons p rooms)
  obtain k v where p: "p = (k, v)" by (cases p)
  show ?case
  proof (cases "k = r")
    case True
    with Cons.prems p have "v = rm" and "r \<notin> set (map fst rooms)" by auto
    then have "set_users r us rooms = rooms"
      by (induction rooms) (auto simp: set_users_def)
    with True p Cons.prems \<open>v = rm\<close> show ?thesis by (simp add: set_users_def)
  next
    case False
    with Cons p show ?thesis by (simp add: set_users_def)
  qed
qed

lemma set_users_absent: "r \<notin> set (map fst rooms) \<Longrightarrow> set_users r us rooms = rooms"
  by (induction rooms) (auto simp: set_users_def)

lemma map_of_delete_room: "map_of (delete_room r rooms) k = (if k = r then None else map_of rooms k)"
  by (induction rooms) (auto simp: delete_room_def)

lemma map_fst_delete_room: "map fst (delete_room r rooms) = filter (\<lambda>k. k \<noteq> r) (map fst rooms)"
  by (induction rooms) (auto simp: delete_room_def)

lemma delete_room_absent: "r \<notin> set (map fst rooms) \<Longrightarrow> delete_room r rooms = rooms"
  by (induction rooms) (auto simp: delete_room_def)

lemma delete_room_set_users: "delete_room r (set_users r us rooms) = delete_room r rooms"
  by (induction rooms) (auto simp: delete_room_def set_users_def)

lemma delete_room_insert_index:
  "r \<notin> set (map fst rooms) \<Longrightarrow> delete_room r (insert_index r v rooms) = rooms"
proof (induction rooms)
  case Nil
  then show ?case by (simp add: delete_room_def)
next
  case (Cons p rooms)
  then have "delete_room r (insert_index r v rooms) = rooms" and "delete_room r rooms = rooms"
    and "fst p \<noteq> r"
    by (auto simp: delete_room_absent)
  then show ?case
    by (cases p) (auto simp: delete_room_def)
qed

lemma delete_room_create_property:
  assumes "r \<notin> set (map fst rooms)"
  shows "delete_room r (create_property r v rooms) = rooms"
proof (cases "is_array_index r")
  case True
  then show ?thesis
    using assms by (simp add: create_property_def delete_room_insert_index)
next
  case False
  then show ?thesis
    using assms delete_room_absent [of r rooms] by (simp add: create_property_def delete_room_def)
qed

lemma map_of_None_iff: "map_of rooms r = None \<longleftrightarrow> r \<notin> set (map fst rooms)"
  by (simp add: map_of_eq_None_iff)

section \<open>What each handler does\<close>

lemma list_all_set_users:
  "P us \<Longrightarrow> list_all (\<lambda>(k, rm). P (users rm)) (delete_room r X)
     \<Longrightarrow> list_all (\<lambda>(k, rm). P (users rm)) (set_users r us X)"
  by (induction X) (auto simp: set_users_def delete_room_def split: if_splits)

lemma list_all_delete_room: "list_all Q X \<Longrightarrow> list_all Q (delete_room r X)"
  by (simp add: delete_room_def list_all_iff)

lemma rooms_get_own: "map_of rooms r = Some rm \<Longrightarrow> rooms_get rooms r = OwnRoom rm"
  by (simp add: rooms_get_def)

lemma rooms_get_undefined:
  "map_of rooms r = None \<Longrightarrow> r \<notin> set object_prototype_keys \<Longrightarrow> rooms_get rooms r = Undefined"
  by (simp add: rooms_get_def)

lemma rooms_get_inherited:
  "map_of rooms r = None \<Longrightarrow> r \<in> set object_prototype_keys \<Longrightarrow> rooms_get rooms r = Inherited"
  by (simp add: rooms_get_def)

lemma join_new_room:
  assumes "map_of rooms r = None" and "r \<notin> set object_prototype_keys"
  shows "join_voice_room sid r rooms =
     Inr (set_users r [sid] (create_property r \<lparr>users = []\<rparr> rooms),
          [SocketJoin sid r, EmitToOthers sid r (UserJoined sid)])"
proof -
  from assms(1) have absent: "r \<notin> set (map fst rooms)"
    by (simp add: map_of_eq_None_iff)
  have "map_of (create_property r \<lparr>users = []\<rparr> rooms) r = Some \<lparr>users = []\<rparr>"
    using absent by (simp add: map_of_create_property)
  then have "room_users (create_property r \<lparr>users = []\<rparr> rooms) r = Inr []"
    by (simp add: room_users_def rooms_get_own)
  then show ?thesis
    using assms by (simp add: join_voice_room_def ensure_room_def rooms_get_undefined)
qed

lemma join_inherited:
  assumes "map_of rooms r = None" and "r \<in> set object_prototype_keys"
  shows "join_voice_room sid r rooms = Inl TypeError"
  using assms by (simp add: join_voice_room_def ensure_room_def rooms_get_inherited room_users_def)

lemma join_existing:
  assumes "map_of rooms r = Some rm"
  shows "join_voice_room sid r rooms =
     (if length (users rm) \<ge> 10 then Inr (rooms, [EmitToSocket sid (RoomFull r 10)])
      else if sid \<in> set (users rm) then Inr (rooms, [SocketJoin sid r])
      else Inr (set_users r (users rm @ [sid]) rooms,
                [SocketJoin sid r, EmitToOthers sid r (UserJoined sid)]))"
  using assms by (simp add: join_voice_room_def ensure_room_def rooms_get_own room_users_def)

lemma leave_unknown:
  assumes "map_of rooms r = None"
  shows "leave_voice_room resume net sid r rooms = Inr (rooms, [SocketLeave sid r])"
  using assms
  by (cases "r \<in> set object_prototype_keys")
     (simp_all add: leave_voice_room_def leave_try_def rooms_get_undefined rooms_get_inherited)

lemma leave_existing:
  assumes "map_of rooms r = Some rm"
  shows "leave_voice_room resume net sid r rooms =
     (if filter (\<lambda>u. u \<noteq> sid) (users rm) = []
      then Inr (delete_room r rooms,
                [SocketLeave sid r, EmitTo r (UserLeft sid)] @ map Fetch (fst (finalize_leave resume net r)))
      else Inr (set_users r (filter (\<lambda>u. u \<noteq> sid) (users rm)) rooms,
                [SocketLeave sid r, EmitTo r (UserLeft sid)]))"
  using assms
  by (simp add: leave_voice_room_def leave_try_def rooms_get_own Let_def delete_room_set_users)

lemma fst_disconnect:
  "fst (disconnect resume net sid rooms) =
     map (\<lambda>(k, rm). (k, rm\<lparr>users := filter (\<lambda>u. u \<noteq> sid) (users rm)\<rparr>))
       (filter (\<lambda>(k, rm). filter (\<lambda>u. u \<noteq> sid) (users rm) \<noteq> []) rooms)"
  by (induction rooms) (auto simp: Let_def)

lemma user_left_disconnect:
  "filter is_user_left (snd (disconnect resume net sid rooms)) =
     map (\<lambda>k. EmitTo k (UserLeft sid)) (map fst rooms)"
  by (induction rooms) (auto simp: Let_def is_user_left_def)

lemma fetch_disconnect:
  "filter is_fetch (snd (disconnect resume net sid rooms)) =
     concat (map (\<lambda>k. map Fetch (fst (finalize_disconnect resume net k))) (emptied_by sid rooms))"
  by (induction rooms) (auto simp: Let_def is_fetch_def emptied_by_def)

section \<open>The registry holds no empty room\<close>

lemma wf_join:
  assumes wf: "wf_registry rooms" and j: "join_voice_room sid r rooms = Inr (rooms', effs)"
  shows "wf_registry rooms'"
proof (cases "map_of rooms r")
  case None
  then have absent: "r \<notin> set (map fst rooms)"
    by (simp add: map_of_eq_None_iff)
  from None j have np: "r \<notin> set object_prototype_keys"
    by (auto simp: join_inherited)
  with None j have rooms': "rooms' = set_users r [sid] (create_property r \<lparr>users = []\<rparr> rooms)"
    by (simp add: join_new_room)
  have "distinct (map fst rooms')"
    using wf absent by (simp add: rooms' map_fst_set_users distinct_create_property wf_registry_def)
  moreover have "no_empty_room rooms'"
    unfolding rooms' no_empty_room_def
    using wf absent
    by (intro list_all_set_users) (simp_all add: delete_room_create_property wf_registry_def no_empty_room_def)
  ultimately show ?thesis by (simp add: wf_registry_def)
next
  case (Some rm)
  with j have "rooms' = rooms \<or> rooms' = set_users r (users rm @ [sid]) rooms"
    by (auto simp: join_existing split: if_splits)
  then show ?thesis
  proof
    assume "rooms' = rooms"
    with wf show ?thesis by simp
  next
    assume rooms': "rooms' = set_users r (users rm @ [sid]) rooms"
    have "no_empty_room rooms'"
      unfolding rooms' no_empty_room_def
      using wf
      by (intro list_all_set_users) (simp_all add: list_all_delete_room wf_registry_def no_empty_room_def)
    with wf show ?thesis
      by (simp add: rooms' wf_registry_def map_fst_set_users)
  qed
qed

lemma wf_leave:
  assumes wf: "wf_registry rooms" and l: "leave_voice_room resume net sid r rooms = Inr (rooms', effs)"
  shows "wf_registry rooms'"
proof (cases "map_of rooms r")
  case None
  with l wf show ?thesis by (simp add: leave_unknown)
next
  case (Some rm)
  show ?thesis
  proof (cases "filter (\<lambda>u. u \<noteq> sid) (users rm) = []")
    case True
    with Some l have "rooms' = delete_room r rooms"
      by (simp add: leave_existing)
    with wf show ?thesis
      by (simp add: wf_registry_def no_empty_room_def list_all_delete_room map_fst_delete_room)
  next
    case False
    with Some l have rooms': "rooms' = set_users r (filter (\<lambda>u. u \<noteq> sid) (users rm)) rooms"
      by (simp add: leave_existing)
    have "no_empty_room rooms'"
      unfolding rooms' no_empty_room_def
      using wf False
      by (intro list_all_set_users) (simp_all add: list_all_delete_room wf_registry_def no_empty_room_def)
    with wf show ?thesis
      by (simp add: rooms' wf_registry_def map_fst_set_users)
  qed
qed

lemma map_fst_disconnect:
  "map fst (fst (disconnect resume net sid rooms)) =
     map fst (filter (\<lambda>(k, rm). filter (\<lambda>u. u \<noteq> sid) (users rm) \<noteq> []) rooms)"
  by (simp add: fst_disconnect)

lemma wf_disconnect:
  assumes wf: "wf_registry rooms"
    and d: "disconnect resume net sid rooms = (rooms', effs :: 'p effect list)"
  shows "wf_registry rooms'"
proof -
  from d have rooms': "rooms' = fst (disconnect resume net sid rooms :: registry \<times> 'p effect list)"
    by simp
  have "distinct (map fst rooms')"
    unfolding rooms' using wf by (simp add: map_fst_disconnect wf_registry_def distinct_map_filter)
  moreover have "no_empty_room rooms'"
    unfolding rooms' by (auto simp: fst_disconnect no_empty_room_def list_all_iff)
  ultimately show ?thesis by (simp add: wf_registry_def)
qed

lemma wf_handle:
  assumes "wf_registry rooms" and "handle resume net sid ev rooms = Inr (rooms', effs)"
  shows "wf_registry rooms'"
proof (cases ev)
  case (JoinVoiceRoom r)
  with assms show ?thesis by (auto simp: handle_def dest: wf_join)
next
  case (LeaveVoiceRoom r)
  with assms show ?thesis by (auto simp: handle_def dest: wf_leave)
next
  case Disconnect
  with assms have "disconnect resume net sid rooms = (rooms', effs)"
    by (simp add: handle_def)
  with assms(1) show ?thesis by (rule wf_disconnect)
qed (use assms in \<open>auto simp: handle_def voice_offer_def voice_answer_def ice_candidate_def\<close>)

lemma wf_run:
  "wf_registry rooms \<Longrightarrow> run resume net evs rooms = Inr (rooms', effs) \<Longrightarrow> wf_registry rooms'"
proof (induction evs arbitrary: rooms effs)
  case Nil
  then show ?case by simp
next
  case (Cons p evs)
  obtain sid ev where p: "p = (sid, ev)" by (cases p)
  from Cons.prems p obtain rooms1 effs1 effs2
    where h: "handle resume net sid ev rooms = Inr (rooms1, effs1)"
      and r: "run resume net evs rooms1 = Inr (rooms', effs2)"
    by (auto split: sum.splits)
  from Cons.prems(1) h have "wf_registry rooms1" by (rule wf_handle)
  then show ?case using r by (rule Cons.IH)
qed

lemma participants_nonempty_iff:
  assumes "no_empty_room rooms"
  shows "r \<in> set (room_ids rooms) \<longleftrightarrow> participants rooms r \<noteq> []"
proof (cases "map_of rooms r")
  case None
  then have "r \<notin> set (map fst rooms)"
    by (simp add: map_of_eq_None_iff)
  with None show ?thesis
    by (simp add: participants_def room_ids_def)
next
  case (Some rm)
  then have "(r, rm) \<in> set rooms" by (rule map_of_SomeD)
  with assms have "users rm \<noteq> []"
    by (auto simp: no_empty_room_def list_all_iff)
  moreover from Some have "r \<in> set (room_ids rooms)"
    by (auto simp: room_ids_def dest: map_of_SomeD intro: rev_image_eqI)
  ultimately show ?thesis using Some by (simp add: participants_def)
qed

text \<open>
  C4. In every state that the server reaches from the empty registry, by any events of any
  connections, a room identifier is a key of the registry exactly when the room has a
  participant; the keys are pairwise different. The handlers keep this from one state to the
  next (\<open>wf_join\<close>, \<open>wf_leave\<close>, \<open>wf_disconnect\<close>): leave and disconnect delete a
  room in the call that empties it.
\<close>

theorem registry_holds_no_empty_room:
  assumes "run resume net evs [] = Inr (rooms, effs)"
  shows "distinct (room_ids rooms) \<and> (\<forall>r. r \<in> set (room_ids rooms) \<longleftrightarrow> participants rooms r \<noteq> [])"
proof -
  have "wf_registry []" by (simp add: wf_registry_def no_empty_room_def)
  then have "wf_registry rooms" using assms by (rule wf_run)
  then have "distinct (room_ids rooms)" and "no_empty_room rooms"
    by (simp_all add: wf_registry_def room_ids_def)
  then show ?thesis
    by (simp add: participants_nonempty_iff)
qed

lemmas model_simps =
  is_array_index_def is_digit_def decimal_def create_property_def object_prototype_keys_def
  rooms_get_def room_users_def set_users_def delete_room_def ensure_room_def
  join_voice_room_def api_join_voice_room_def leave_try_def leave_voice_room_def handle_def
  api_handle_def finalize_leave_def finalize_disconnect_def tryFinalize_def catch_all_def
  read_body_def voice_offer_def voice_answer_def ice_candidate_def Let_def

theorem registry_holds_no_empty_room_witness:
  "run None (\<lambda>url. Rejected)
     [(''a'', JoinVoiceRoom ''r''), (''b'', JoinVoiceRoom ''q''), (''a'', LeaveVoiceRoom ''r'')] []
     = Inr ([(''q'', \<lparr>users = [''b'']\<rparr>)],
            [SocketJoin ''a'' ''r'', EmitToOthers ''a'' ''r'' (UserJoined ''a''),
             SocketJoin ''b'' ''q'', EmitToOthers ''b'' ''q'' (UserJoined ''b''),
             SocketLeave ''a'' ''r'', EmitTo ''r'' (UserLeft ''a'') :: unit effect]) \<and>
   (\<forall>r. r \<in> set (room_ids [(''q'', \<lparr>users = [''b'']\<rparr>)])
      \<longleftrightarrow> participants [(''q'', \<lparr>users = [''b'']\<rparr>)] r \<noteq> [])"
proof -
  have r: "run None (\<lambda>url. Rejected)
     [(''a'', JoinVoiceRoom ''r''), (''b'', JoinVoiceRoom ''q''), (''a'', LeaveVoiceRoom ''r'')] []
     = Inr ([(''q'', \<lparr>users = [''b'']\<rparr>)],
            [SocketJoin ''a'' ''r'', EmitToOthers ''a'' ''r'' (UserJoined ''a''),
             SocketJoin ''b'' ''q'', EmitToOthers ''b'' ''q'' (UserJoined ''b''),
             SocketLeave ''a'' ''r'', EmitTo ''r'' (UserLeft ''a'') :: unit effect])"
    by (simp add: model_simps)
  from registry_holds_no_empty_room [OF r] r show ?thesis
    by simp
qed

section \<open>The limit of ten participants\<close>

lemma cap_join:
  assumes cap: "within_capacity rooms" and j: "join_voice_room sid r rooms = Inr (rooms', effs)"
  shows "within_capacity rooms'"
proof (cases "map_of rooms r")
  case None
  then have absent: "r \<notin> set (map fst rooms)"
    by (simp add: map_of_eq_None_iff)
  from None j have np: "r \<notin> set object_prototype_keys"
    by (auto simp: join_inherited)
  with None j have rooms': "rooms' = set_users r [sid] (create_property r \<lparr>users = []\<rparr> rooms)"
    by (simp add: join_new_room)
  show ?thesis
    unfolding rooms' within_capacity_def
    using cap absent
    by (intro list_all_set_users) (simp_all add: delete_room_create_property within_capacity_def)
next
  case (Some rm)
  with j have "rooms' = rooms \<or>
      (length (users rm) < 10 \<and> rooms' = set_users r (users rm @ [sid]) rooms)"
    by (auto simp: join_existing split: if_splits)
  then show ?thesis
  proof
    assume "rooms' = rooms"
    with cap show ?thesis by simp
  next
    assume a: "length (users rm) < 10 \<and> rooms' = set_users r (users rm @ [sid]) rooms"
    then have rooms': "rooms' = set_users r (users rm @ [sid]) rooms" ..
    show ?thesis
      unfolding rooms' within_capacity_def
      using cap a
      by (intro list_all_set_users) (simp_all add: list_all_delete_room within_capacity_def)
  qed
qed

lemma cap_leave:
  assumes cap: "within_capacity rooms" and l: "leave_voice_room resume net sid r rooms = Inr (rooms', effs)"
  shows "within_capacity rooms'"
proof (cases "map_of rooms r")
  case None
  with l cap show ?thesis by (simp add: leave_unknown)
next
  case (Some rm)
  then have "(r, rm) \<in> set rooms" by (rule map_of_SomeD)
  with cap have le: "length (users rm) \<le> 10"
    by (auto simp: within_capacity_def list_all_iff)
  have "length (filter (\<lambda>u. u \<noteq> sid) (users rm)) \<le> length (users rm)"
    by simp
  with le have short: "length (filter (\<lambda>u. u \<noteq> sid) (users rm)) \<le> 10"
    by linarith
  from Some l have "rooms' = delete_room r rooms \<or>
      rooms' = set_users r (filter (\<lambda>u. u \<noteq> sid) (users rm)) rooms"
    by (auto simp: leave_existing split: if_splits)
  then show ?thesis
  proof
    assume "rooms' = delete_room r rooms"
    with cap show ?thesis
      by (simp add: within_capacity_def list_all_delete_room)
  next
    assume rooms': "rooms' = set_users r (filter (\<lambda>u. u \<noteq> sid) (users rm)) rooms"
    show ?thesis
      unfolding rooms' within_capacity_def
      using cap short
      by (intro list_all_set_users) (simp_all add: list_all_delete_room within_capacity_def)
  qed
qed

lemma cap_disconnect:
  assumes cap: "within_capacity rooms"
    and d: "disconnect resume net sid rooms = (rooms', effs :: 'p effect list)"
  shows "within_capacity rooms'"
proof -
  from d have rooms': "rooms' = fst (disconnect resume net sid rooms :: registry \<times> 'p effect list)"
    by simp
  have "\<And>us :: socket_id list. length us \<le> 10 \<Longrightarrow> length (filter (\<lambda>u. u \<noteq> sid) us) \<le> 10"
    by (rule le_trans [OF length_filter_le])
  with cap show ?thesis
    unfolding rooms' by (auto simp: fst_disconnect within_capacity_def list_all_iff)
qed

lemma cap_handle:
  assumes "within_capacity rooms" and "handle resume net sid ev rooms = Inr (rooms', effs)"
  shows "within_capacity rooms'"
proof (cases ev)
  case (JoinVoiceRoom r)
  with assms show ?thesis by (auto simp: handle_def dest: cap_join)
next
  case (LeaveVoiceRoom r)
  with assms show ?thesis by (auto simp: handle_def dest: cap_leave)
next
  case Disconnect
  with assms have "disconnect resume net sid rooms = (rooms', effs)"
    by (simp add: handle_def)
  with assms(1) show ?thesis by (rule cap_disconnect)
qed (use assms in \<open>auto simp: handle_def voice_offer_def voice_answer_def ice_candidate_def\<close>)

lemma cap_run:
  "within_capacity rooms \<Longrightarrow> run resume net evs rooms = Inr (rooms', effs) \<Longrightarrow> within_capacity rooms'"
proof (induction evs arbitrary: rooms effs)
  case Nil
  then show ?case by simp
next
  case (Cons p evs)
  obtain sid ev where p: "p = (sid, ev)" by (cases p)
  from Cons.prems p obtain rooms1 effs1 effs2
    where h: "handle resume net sid ev rooms = Inr (rooms1, effs1)"
      and r: "run resume net evs rooms1 = Inr (rooms', effs2)"
    by (auto split: sum.splits)
  from Cons.prems(1) h have "within_capacity rooms1" by (rule cap_handle)
  then show ?case using r by (rule Cons.IH)
qed

lemma participants_within_capacity:
  assumes "within_capacity rooms"
  shows "length (participants rooms r) \<le> 10"
proof (cases "map_of rooms r")
  case None
  then show ?thesis by (simp add: participants_def)
next
  case (Some rm)
  then have "(r, rm) \<in> set rooms" by (rule map_of_SomeD)
  with assms Some show ?thesis
    by (auto simp: participants_def within_capacity_def list_all_iff)
qed

text \<open>
  The server with the limit: whatever the events from the empty registry on, no room has
  more than ten participants, and a join to a room of ten or more is answered to the
  requester alone, with the registry as it was.
\<close>

lemma join_voice_room_capacity:
  assumes "run resume net evs [] = Inr (rooms, effs)"
  shows "length (participants rooms r) \<le> 10"
proof -
  have "within_capacity []" by (simp add: within_capacity_def)
  then have "within_capacity rooms" using assms by (rule cap_run)
  then show ?thesis by (rule participants_within_capacity)
qed

lemma join_voice_room_full:
  assumes "10 \<le> length (participants rooms r)"
  shows "join_voice_room sid r rooms = Inr (rooms, [EmitToSocket sid (RoomFull r 10)])"
    and "recipients A (EmitToSocket sid (RoomFull r 10)) = {sid}"
proof -
  from assms obtain rm where "map_of rooms r = Some rm" and "10 \<le> length (users rm)"
    by (cases "map_of rooms r") (auto simp: participants_def)
  then show "join_voice_room sid r rooms = Inr (rooms, [EmitToSocket sid (RoomFull r 10)])"
    by (simp add: join_existing)
  show "recipients A (EmitToSocket sid (RoomFull r 10)) = {sid}"
    by simp
qed

text \<open>
  The server with the limit: a join by a connection that is in the room changes nothing in
  the registry and is not announced; a join followed by the same join adds at most one
  participant.
\<close>

lemma join_voice_room_member:
  assumes "sid \<in> set (participants rooms r)"
  shows "join_voice_room sid r rooms =
     Inr (rooms, if 10 \<le> length (participants rooms r)
                 then [EmitToSocket sid (RoomFull r 10)] else [SocketJoin sid r])"
proof -
  from assms obtain rm where "map_of rooms r = Some rm" and "sid \<in> set (users rm)"
    by (cases "map_of rooms r") (auto simp: participants_def)
  then show ?thesis
    by (simp add: join_existing participants_def)
qed

lemma participants_set_users:
  "map_of rooms r = Some rm \<Longrightarrow> participants (set_users r us rooms) r = us"
  by (simp add: participants_def map_of_set_users)

lemma join_voice_room_twice:
  assumes "join_voice_room sid r rooms = Inr (rooms1, effs1)"
  shows "\<exists>effs2. join_voice_room sid r rooms1 = Inr (rooms1, effs2) \<and>
           filter is_user_joined effs2 = [] \<and>
           length (participants rooms1 r) \<le> length (participants rooms r) + 1"
proof (cases "map_of rooms r")
  case None
  then have absent: "r \<notin> set (map fst rooms)"
    by (simp add: map_of_eq_None_iff)
  from None assms have np: "r \<notin> set object_prototype_keys"
    by (auto simp: join_inherited)
  with None assms have rooms1: "rooms1 = set_users r [sid] (create_property r \<lparr>users = []\<rparr> rooms)"
    by (simp add: join_new_room)
  have "map_of (create_property r \<lparr>users = []\<rparr> rooms) r = Some \<lparr>users = []\<rparr>"
    using absent by (simp add: map_of_create_property)
  then have p1: "participants rooms1 r = [sid]"
    unfolding rooms1 by (rule participants_set_users)
  then have "sid \<in> set (participants rooms1 r)" by simp
  then show ?thesis
    using p1 by (simp add: join_voice_room_member is_user_joined_def)
next
  case (Some rm)
  show ?thesis
  proof (cases "10 \<le> length (users rm)")
    case True
    with Some assms have "rooms1 = rooms"
      by (simp add: join_existing)
    with Some True show ?thesis
      by (simp add: join_existing is_user_joined_def)
  next
    case False
    show ?thesis
    proof (cases "sid \<in> set (users rm)")
      case True
      with Some False assms have "rooms1 = rooms"
        by (simp add: join_existing)
      with Some False True show ?thesis
        by (simp add: join_existing is_user_joined_def)
    next
      case notin: False
      with Some False assms have rooms1: "rooms1 = set_users r (users rm @ [sid]) rooms"
        by (simp add: join_existing)
      from Some have p1: "participants rooms1 r = users rm @ [sid]"
        unfolding rooms1 by (rule participants_set_users)
      then have "sid \<in> set (participants rooms1 r)" by simp
      then show ?thesis
        using p1 Some by (simp add: join_voice_room_member is_user_joined_def participants_def)
    qed
  qed
qed

section \<open>The server of api/index.ts has no limit and no guard\<close>

text \<open>
  C1. The claim is that a room never has more than ten participants and that a join to a
  room of ten is answered by room-full to the requester alone, the room being left as it
  is. The join handler of \<^verbatim>\<open>api/index.ts\<close> breaks it: when eleven different connections
  join the room \<^verbatim>\<open>r\<close>, the eleventh is put into the list like the others and announced,
  and no room-full is sent. The server with the limit keeps the claim
  (\<open>join_voice_room_capacity\<close>, \<open>join_voice_room_full\<close>, \<open>join_voice_room_eleventh\<close>).
\<close>

theorem api_join_exceeds_limit:
  "api_run
     [(''c1'', JoinVoiceRoom ''r''), (''c2'', JoinVoiceRoom ''r''), (''c3'', JoinVoiceRoom ''r''),
      (''c4'', JoinVoiceRoom ''r''), (''c5'', JoinVoiceRoom ''r''), (''c6'', JoinVoiceRoom ''r''),
      (''c7'', JoinVoiceRoom ''r''), (''c8'', JoinVoiceRoom ''r''), (''c9'', JoinVoiceRoom ''r''),
      (''c10'', JoinVoiceRoom ''r''), (''c11'', JoinVoiceRoom ''r'')] []
   = Inr ([(''r'', \<lparr>users = [''c1'', ''c2'', ''c3'', ''c4'', ''c5'', ''c6'', ''c7'', ''c8'', ''c9'',
                                ''c10'', ''c11'']\<rparr>)],
          [SocketJoin ''c1'' ''r'', EmitToOthers ''c1'' ''r'' (UserJoined ''c1''),
           SocketJoin ''c2'' ''r'', EmitToOthers ''c2'' ''r'' (UserJoined ''c2''),
           SocketJoin ''c3'' ''r'', EmitToOthers ''c3'' ''r'' (UserJoined ''c3''),
           SocketJoin ''c4'' ''r'', EmitToOthers ''c4'' ''r'' (UserJoined ''c4''),
           SocketJoin ''c5'' ''r'', EmitToOthers ''c5'' ''r'' (UserJoined ''c5''),
           SocketJoin ''c6'' ''r'', EmitToOthers ''c6'' ''r'' (UserJoined ''c6''),
           SocketJoin ''c7'' ''r'', EmitToOthers ''c7'' ''r'' (UserJoined ''c7''),
           SocketJoin ''c8'' ''r'', EmitToOthers ''c8'' ''r'' (UserJoined ''c8''),
           SocketJoin ''c9'' ''r'', EmitToOthers ''c9'' ''r'' (UserJoined ''c9''),
           SocketJoin ''c10'' ''r'', EmitToOthers ''c10'' ''r'' (UserJoined ''c10''),
           SocketJoin ''c11'' ''r'', EmitToOthers ''c11'' ''r'' (UserJoined ''c11'') :: unit effect])"
  by (simp add: model_simps)

text \<open>
  C3. The claim is that a second join of a room by a connection that is in it changes
  nothing and is not announced. The join handler of \<^verbatim>\<open>api/index.ts\<close> breaks it: the
  second join puts the connection into the list a second time and is announced again. The
  server with the limit keeps the claim (\<open>join_voice_room_member\<close>,
  \<open>join_voice_room_twice\<close>).
\<close>

theorem api_join_twice_duplicates:
  "api_run [(''a'', JoinVoiceRoom ''r''), (''a'', JoinVoiceRoom ''r'')] []
   = Inr ([(''r'', \<lparr>users = [''a'', ''a'']\<rparr>)],
          [SocketJoin ''a'' ''r'', EmitToOthers ''a'' ''r'' (UserJoined ''a''),
           SocketJoin ''a'' ''r'', EmitToOthers ''a'' ''r'' (UserJoined ''a'') :: unit effect])"
  by (simp add: model_simps)

text \<open>The same eleven joins on the server with the limit.\<close>

lemma join_voice_room_eleventh:
  "run None (\<lambda>url. Rejected)
     [(''c1'', JoinVoiceRoom ''r''), (''c2'', JoinVoiceRoom ''r''), (''c3'', JoinVoiceRoom ''r''),
      (''c4'', JoinVoiceRoom ''r''), (''c5'', JoinVoiceRoom ''r''), (''c6'', JoinVoiceRoom ''r''),
      (''c7'', JoinVoiceRoom ''r''), (''c8'', JoinVoiceRoom ''r''), (''c9'', JoinVoiceRoom ''r''),
      (''c10'', JoinVoiceRoom ''r''), (''c11'', JoinVoiceRoom ''r'')] []
   = Inr ([(''r'', \<lparr>users = [''c1'', ''c2'', ''c3'', ''c4'', ''c5'', ''c6'', ''c7'', ''c8'', ''c9'',
                                ''c10'']\<rparr>)],
          [SocketJoin ''c1'' ''r'', EmitToOthers ''c1'' ''r'' (UserJoined ''c1''),
           SocketJoin ''c2'' ''r'', EmitToOthers ''c2'' ''r'' (UserJoined ''c2''),
           SocketJoin ''c3'' ''r'', EmitToOthers ''c3'' ''r'' (UserJoined ''c3''),
           SocketJoin ''c4'' ''r'', EmitToOthers ''c4'' ''r'' (UserJoined ''c4''),
           SocketJoin ''c5'' ''r'', EmitToOthers ''c5'' ''r'' (UserJoined ''c5''),
           SocketJoin ''c6'' ''r'', EmitToOthers ''c6'' ''r'' (UserJoined ''c6''),
           SocketJoin ''c7'' ''r'', EmitToOthers ''c7'' ''r'' (UserJoined ''c7''),
           SocketJoin ''c8'' ''r'', EmitToOthers ''c8'' ''r'' (UserJoined ''c8''),
           SocketJoin ''c9'' ''r'', EmitToOthers ''c9'' ''r'' (UserJoined ''c9''),
           SocketJoin ''c10'' ''r'', EmitToOthers ''c10'' ''r'' (UserJoined ''c10''),
           EmitToSocket ''c11'' (RoomFull ''r'' 10) :: unit effect])"
  by (simp add: model_simps)

section \<open>What a disconnect does to the rooms\<close>

lemma map_of_disconnect:
  assumes "distinct (map fst rooms)"
  shows "map_of (fst (disconnect resume net sid rooms)) r =
     (case map_of rooms r of
        None \<Rightarrow> None
      | Some rm \<Rightarrow>
          if filter (\<lambda>u. u \<noteq> sid) (users rm) = [] then None
          else Some (rm\<lparr>users := filter (\<lambda>u. u \<noteq> sid) (users rm)\<rparr>))"
  using assms
proof (induction rooms)
  case Nil
  then show ?case by simp
next
  case (Cons p rooms)
  obtain k v where p: "p = (k, v)" by (cases p)
  from Cons.prems p have k: "map_of rooms k = None"
    by (simp add: map_of_eq_None_iff)
  from Cons.prems have "distinct (map fst rooms)"
    by simp
  note IH = Cons.IH [OF this]
  show ?case
  proof (cases "r = k")
    case True
    with IH k p show ?thesis by (simp add: Let_def)
  next
    case False
    with IH p show ?thesis by (simp add: Let_def)
  qed
qed

lemma participants_disconnect:
  assumes "distinct (map fst rooms)"
  shows "participants (fst (disconnect resume net sid rooms)) r =
           filter (\<lambda>u. u \<noteq> sid) (participants rooms r)"
  using assms by (simp add: participants_def map_of_disconnect split: option.splits)

lemma unchanged_disconnect:
  assumes "wf_registry rooms" and "sid \<notin> set (participants rooms r)"
  shows "map_of (fst (disconnect resume net sid rooms)) r = map_of rooms r"
proof (cases "map_of rooms r")
  case None
  with assms show ?thesis by (simp add: map_of_disconnect wf_registry_def)
next
  case (Some rm)
  then have "(r, rm) \<in> set rooms" by (rule map_of_SomeD)
  with assms(1) have ne: "users rm \<noteq> []"
    by (auto simp: wf_registry_def no_empty_room_def list_all_iff)
  from assms(2) Some have "filter (\<lambda>u. u \<noteq> sid) (users rm) = users rm"
    by (auto simp: participants_def filter_id_conv)
  with Some ne assms(1) show ?thesis
    by (simp add: map_of_disconnect wf_registry_def)
qed

lemma disconnect_in_wf_registry:
  assumes "wf_registry rooms"
    and "disconnect resume net sid rooms = (rooms', effs :: 'p effect list)"
  shows "(\<forall>r. participants rooms' r = filter (\<lambda>u. u \<noteq> sid) (participants rooms r)) \<and>
         (\<forall>r. sid \<notin> set (participants rooms r) \<longrightarrow> map_of rooms' r = map_of rooms r) \<and>
         filter is_user_left effs = map (\<lambda>r. EmitTo r (UserLeft sid)) (room_ids rooms) \<and>
         (rooms = [] \<longrightarrow> rooms' = [] \<and> effs = [])"
proof -
  from assms(2) have rooms': "rooms' = fst (disconnect resume net sid rooms :: registry \<times> 'p effect list)"
    and effs: "effs = snd (disconnect resume net sid rooms :: registry \<times> 'p effect list)"
    by simp_all
  from assms(1) have d: "distinct (map fst rooms)"
    by (simp add: wf_registry_def)
  have "\<forall>r. participants rooms' r = filter (\<lambda>u. u \<noteq> sid) (participants rooms r)"
    unfolding rooms' using d by (simp add: participants_disconnect)
  moreover have "\<forall>r. sid \<notin> set (participants rooms r) \<longrightarrow> map_of rooms' r = map_of rooms r"
    unfolding rooms' using assms(1) by (simp add: unchanged_disconnect)
  moreover have "filter is_user_left effs = map (\<lambda>r. EmitTo r (UserLeft sid)) (room_ids rooms)"
    unfolding effs by (simp add: user_left_disconnect room_ids_def)
  moreover have "rooms = [] \<longrightarrow> rooms' = [] \<and> effs = []"
    using assms(2) by auto
  ultimately show ?thesis by blast
qed

text \<open>
  What the disconnect handler does in every state that the server reaches: it removes the
  connection from the list of every room and changes no other entry of the lists, so a
  room of which the connection was not a member is left as it was; and it sends one
  user-left with the identity of the connection to every room of the registry, in the
  order of the registry, whether the connection was a member or not.
\<close>

lemma disconnect_leaves_every_room:
  assumes "run resume net evs [] = Inr (rooms, effs0)"
    and "disconnect resume net sid rooms = (rooms', effs :: 'p effect list)"
  shows "(\<forall>r. participants rooms' r = filter (\<lambda>u. u \<noteq> sid) (participants rooms r)) \<and>
         (\<forall>r. sid \<notin> set (participants rooms r) \<longrightarrow> map_of rooms' r = map_of rooms r) \<and>
         filter is_user_left effs = map (\<lambda>r. EmitTo r (UserLeft sid)) (room_ids rooms) \<and>
         (rooms = [] \<longrightarrow> rooms' = [] \<and> effs = [])"
proof -
  have "wf_registry []"
    by (simp add: wf_registry_def no_empty_room_def)
  then have "wf_registry rooms"
    using assms(1) by (rule wf_run)
  then show ?thesis
    using assms(2) by (rule disconnect_in_wf_registry)
qed

lemma disconnect_leaves_every_room_example:
  "run (Some ''http://h'') (\<lambda>url. Rejected)
       [(''x'', JoinVoiceRoom ''a''), (''z'', JoinVoiceRoom ''a''), (''y'', JoinVoiceRoom ''b''),
        (''x'', JoinVoiceRoom ''c'')] []
     = Inr ([(''a'', \<lparr>users = [''x'', ''z'']\<rparr>), (''b'', \<lparr>users = [''y'']\<rparr>), (''c'', \<lparr>users = [''x'']\<rparr>)],
            [SocketJoin ''x'' ''a'', EmitToOthers ''x'' ''a'' (UserJoined ''x''),
             SocketJoin ''z'' ''a'', EmitToOthers ''z'' ''a'' (UserJoined ''z''),
             SocketJoin ''y'' ''b'', EmitToOthers ''y'' ''b'' (UserJoined ''y''),
             SocketJoin ''x'' ''c'', EmitToOthers ''x'' ''c'' (UserJoined ''x'') :: unit effect]) \<and>
   disconnect (Some ''http://h'') (\<lambda>url. Rejected) ''x''
       [(''a'', \<lparr>users = [''x'', ''z'']\<rparr>), (''b'', \<lparr>users = [''y'']\<rparr>), (''c'', \<lparr>users = [''x'']\<rparr>)]
     = ([(''a'', \<lparr>users = [''z'']\<rparr>), (''b'', \<lparr>users = [''y'']\<rparr>)],
        [EmitTo ''a'' (UserLeft ''x''), EmitTo ''b'' (UserLeft ''x''), EmitTo ''c'' (UserLeft ''x''),
         Fetch ''http://h/api/audio/finalize?roomId=c'' :: unit effect]) \<and>
   filter is_user_left
        [EmitTo ''a'' (UserLeft ''x''), EmitTo ''b'' (UserLeft ''x''), EmitTo ''c'' (UserLeft ''x''),
         Fetch ''http://h/api/audio/finalize?roomId=c'' :: unit effect]
     = [EmitTo ''a'' (UserLeft ''x''), EmitTo ''b'' (UserLeft ''x''), EmitTo ''c'' (UserLeft ''x'')] \<and>
   map_of [(''a'', \<lparr>users = [''z'']\<rparr>), (''b'', \<lparr>users = [''y'']\<rparr>)] ''b'' = Some \<lparr>users = [''y'']\<rparr>"
proof -
  have r: "run (Some ''http://h'') (\<lambda>url. Rejected)
       [(''x'', JoinVoiceRoom ''a''), (''z'', JoinVoiceRoom ''a''), (''y'', JoinVoiceRoom ''b''),
        (''x'', JoinVoiceRoom ''c'')] []
     = Inr ([(''a'', \<lparr>users = [''x'', ''z'']\<rparr>), (''b'', \<lparr>users = [''y'']\<rparr>), (''c'', \<lparr>users = [''x'']\<rparr>)],
            [SocketJoin ''x'' ''a'', EmitToOthers ''x'' ''a'' (UserJoined ''x''),
             SocketJoin ''z'' ''a'', EmitToOthers ''z'' ''a'' (UserJoined ''z''),
             SocketJoin ''y'' ''b'', EmitToOthers ''y'' ''b'' (UserJoined ''y''),
             SocketJoin ''x'' ''c'', EmitToOthers ''x'' ''c'' (UserJoined ''x'') :: unit effect])"
    by (simp add: model_simps)
  have d: "disconnect (Some ''http://h'') (\<lambda>url. Rejected) ''x''
       [(''a'', \<lparr>users = [''x'', ''z'']\<rparr>), (''b'', \<lparr>users = [''y'']\<rparr>), (''c'', \<lparr>users = [''x'']\<rparr>)]
     = ([(''a'', \<lparr>users = [''z'']\<rparr>), (''b'', \<lparr>users = [''y'']\<rparr>)],
        [EmitTo ''a'' (UserLeft ''x''), EmitTo ''b'' (UserLeft ''x''), EmitTo ''c'' (UserLeft ''x''),
         Fetch ''http://h/api/audio/finalize?roomId=c'' :: unit effect])"
    by (simp add: model_simps url_simps)
  from disconnect_leaves_every_room [OF r d] r d show ?thesis
    by (simp add: room_ids_def)
qed

text \<open>
  C2. The claim is that a disconnect removes the connection from every room it is in and
  sends one user-left to each of these rooms, that a room of which the connection was not
  a member is left as it is and gets no user-left, and that a connection in no room has no
  effect. The removal and the notice to the rooms of the connection are as claimed
  (\<open>disconnect_leaves_every_room\<close>), but the loop sends the user-left before it looks at
  the list of a room, so every room of the registry gets it: \<^verbatim>\<open>x\<close> is in no room, and
  its disconnect sends a user-left to the room \<^verbatim>\<open>b\<close>, of which only \<^verbatim>\<open>y\<close> is a
  member.
\<close>

theorem disconnect_notifies_every_room:
  "run None (\<lambda>url. Rejected) [(''y'', JoinVoiceRoom ''b'')] []
     = Inr ([(''b'', \<lparr>users = [''y'']\<rparr>)],
            [SocketJoin ''y'' ''b'', EmitToOthers ''y'' ''b'' (UserJoined ''y'') :: unit effect]) \<and>
   ''x'' \<notin> set (participants [(''b'', \<lparr>users = [''y'']\<rparr>)] ''b'') \<and>
   disconnect None (\<lambda>url. Rejected) ''x'' [(''b'', \<lparr>users = [''y'']\<rparr>)]
     = ([(''b'', \<lparr>users = [''y'']\<rparr>)], [EmitTo ''b'' (UserLeft ''x'') :: unit effect])"
  by (simp add: participants_def model_simps)

text \<open>The disconnect of \<^verbatim>\<open>api/index.ts\<close> is the same loop without the finalize block.\<close>

lemma api_disconnect_eq: "api_disconnect sid rooms = disconnect None net sid rooms"
  by (induction rooms) (auto simp: Let_def finalize_disconnect_def)

section \<open>Leaving a room without being in it\<close>

lemma leave_in_wf_registry:
  assumes "wf_registry rooms" and "sid \<notin> set (participants rooms r)"
  shows "leave_voice_room resume net sid r rooms =
     Inr (rooms, if r \<in> set (room_ids rooms)
                 then [SocketLeave sid r, EmitTo r (UserLeft sid)]
                 else [SocketLeave sid r])"
proof (cases "map_of rooms r")
  case None
  then have "r \<notin> set (room_ids rooms)"
    by (simp add: map_of_eq_None_iff room_ids_def)
  with None show ?thesis by (simp add: leave_unknown)
next
  case (Some rm)
  then have mem: "(r, rm) \<in> set rooms" by (rule map_of_SomeD)
  then have known: "r \<in> set (room_ids rooms)"
    by (auto simp: room_ids_def intro: rev_image_eqI)
  from mem assms(1) have ne: "users rm \<noteq> []"
    by (auto simp: wf_registry_def no_empty_room_def list_all_iff)
  from assms(2) Some have same: "filter (\<lambda>u. u \<noteq> sid) (users rm) = users rm"
    by (auto simp: participants_def filter_id_conv)
  from assms(1) Some have "set_users r (users rm) rooms = rooms"
    by (simp add: set_users_same wf_registry_def)
  with Some ne same known show ?thesis
    by (simp add: leave_existing)
qed

text \<open>
  What the leave handler does, in every state that the server reaches, for a connection
  that is not a member of the room: the registry is left as it is and nothing is raised.
  When the registry does not hold the room, the only call is \<^verbatim>\<open>socket.leave\<close>; when it
  holds the room, a user-left with the identity of the connection is sent to the room as
  well.
\<close>

lemma leave_without_membership:
  assumes "run resume net evs [] = Inr (rooms, effs0)" and "sid \<notin> set (participants rooms r)"
  shows "leave_voice_room resume net sid r rooms =
     Inr (rooms, if r \<in> set (room_ids rooms)
                 then [SocketLeave sid r, EmitTo r (UserLeft sid)]
                 else [SocketLeave sid r])"
proof -
  have "wf_registry []"
    by (simp add: wf_registry_def no_empty_room_def)
  then have "wf_registry rooms"
    using assms(1) by (rule wf_run)
  then show ?thesis
    using assms(2) by (rule leave_in_wf_registry)
qed

lemma leave_without_membership_example:
  "run (Some ''http://h'') (\<lambda>url. Rejected) [(''a'', JoinVoiceRoom ''r'')] []
     = Inr ([(''r'', \<lparr>users = [''a'']\<rparr>)],
            [SocketJoin ''a'' ''r'', EmitToOthers ''a'' ''r'' (UserJoined ''a'') :: unit effect]) \<and>
   ''b'' \<notin> set (participants [(''r'', \<lparr>users = [''a'']\<rparr>)] ''q'') \<and>
   leave_voice_room (Some ''http://h'') (\<lambda>url. Rejected) ''b'' ''q'' [(''r'', \<lparr>users = [''a'']\<rparr>)]
     = Inr ([(''r'', \<lparr>users = [''a'']\<rparr>)], [SocketLeave ''b'' ''q'' :: unit effect]) \<and>
   ''c'' \<notin> set (participants [(''r'', \<lparr>users = [''a'']\<rparr>)] ''r'') \<and>
   leave_voice_room (Some ''http://h'') (\<lambda>url. Rejected) ''c'' ''r'' [(''r'', \<lparr>users = [''a'']\<rparr>)]
     = Inr ([(''r'', \<lparr>users = [''a'']\<rparr>)],
            [SocketLeave ''c'' ''r'', EmitTo ''r'' (UserLeft ''c'') :: unit effect])"
proof -
  have r: "run (Some ''http://h'') (\<lambda>url. Rejected) [(''a'', JoinVoiceRoom ''r'')] []
     = Inr ([(''r'', \<lparr>users = [''a'']\<rparr>)],
            [SocketJoin ''a'' ''r'', EmitToOthers ''a'' ''r'' (UserJoined ''a'') :: unit effect])"
    by (simp add: model_simps)
  have nm: "''b'' \<notin> set (participants [(''r'', \<lparr>users = [''a'']\<rparr>)] ''q'')"
    by (simp add: participants_def)
  have nm': "''c'' \<notin> set (participants [(''r'', \<lparr>users = [''a'']\<rparr>)] ''r'')"
    by (simp add: participants_def)
  from leave_without_membership [OF r nm] leave_without_membership [OF r nm'] r nm nm'
  show ?thesis
    by (simp add: room_ids_def)
qed

text \<open>
  C6. The claim is that a leave-voice-room for a room that the registry does not hold, or
  by a connection that is not a member of the room, is a no-op: the registry is unchanged,
  no error is signalled and no user-left is sent. The registry and the absence of an error
  are as claimed (\<open>leave_without_membership\<close>), but for a room that the registry holds
  the handler sends the user-left without looking at the list: \<^verbatim>\<open>b\<close> is not a member
  of \<^verbatim>\<open>r\<close>, and its leave is announced to \<^verbatim>\<open>r\<close>.
\<close>

theorem leave_of_non_member_is_announced:
  "run None (\<lambda>url. Rejected) [(''a'', JoinVoiceRoom ''r'')] []
     = Inr ([(''r'', \<lparr>users = [''a'']\<rparr>)],
            [SocketJoin ''a'' ''r'', EmitToOthers ''a'' ''r'' (UserJoined ''a'') :: unit effect]) \<and>
   ''b'' \<notin> set (participants [(''r'', \<lparr>users = [''a'']\<rparr>)] ''r'') \<and>
   leave_voice_room None (\<lambda>url. Rejected) ''b'' ''r'' [(''r'', \<lparr>users = [''a'']\<rparr>)]
     = Inr ([(''r'', \<lparr>users = [''a'']\<rparr>)],
            [SocketLeave ''b'' ''r'', EmitTo ''r'' (UserLeft ''b'') :: unit effect])"
  by (simp add: participants_def model_simps)

section \<open>The relay of offers, answers and candidates\<close>

text \<open>
  C7. The three relay handlers leave the registry as it is and send one event of the same
  name to \<^verbatim>\<open>to\<close>: the payload as it came, \<^verbatim>\<open>from\<close> set to the identity of the
  sender, and the room identifier of the request for an offer and an answer; the
  ice-candidate event has no room identifier. A connection that is in the room of its own
  identity, where the transport puts it, receives the event.
\<close>

theorem relay_forwards_payload:
  assumes "in_own_room A c2"
  shows "handle resume net c1 (VoiceOfferEv r X c2) rooms = Inr (rooms, [EmitTo c2 (VoiceOffer c1 X r)]) \<and>
         received A c2 [EmitTo c2 (VoiceOffer c1 X r)] = [EmitTo c2 (VoiceOffer c1 X r)] \<and>
         handle resume net c1 (VoiceAnswerEv r X c2) rooms = Inr (rooms, [EmitTo c2 (VoiceAnswer c1 X r)]) \<and>
         received A c2 [EmitTo c2 (VoiceAnswer c1 X r)] = [EmitTo c2 (VoiceAnswer c1 X r)] \<and>
         handle resume net c1 (IceCandidateEv X c2) rooms = Inr (rooms, [EmitTo c2 (IceCandidate c1 X)]) \<and>
         received A c2 [EmitTo c2 (IceCandidate c1 X)] = [EmitTo c2 (IceCandidate c1 X)]"
  using assms
  by (simp add: handle_def voice_offer_def voice_answer_def ice_candidate_def in_own_room_def)

theorem relay_forwards_payload_witness:
  "in_own_room ((\<lambda>x. {})(''c1'' := {''c1''}, ''c2'' := {''c2''})) ''c2'' \<and>
   handle None (\<lambda>url. Rejected) ''c1'' (VoiceOfferEv ''r1'' ''sdp'' ''c2'') []
     = Inr ([], [EmitTo ''c2'' (VoiceOffer ''c1'' ''sdp'' ''r1'')]) \<and>
   received ((\<lambda>x. {})(''c1'' := {''c1''}, ''c2'' := {''c2''})) ''c2''
       [EmitTo ''c2'' (VoiceOffer ''c1'' ''sdp'' ''r1'')]
     = [EmitTo ''c2'' (VoiceOffer ''c1'' ''sdp'' ''r1'')]"
proof -
  have own: "in_own_room ((\<lambda>x. {})(''c1'' := {''c1''}, ''c2'' := {''c2''})) ''c2''"
    by (simp add: in_own_room_def)
  from relay_forwards_payload [OF own, of None "\<lambda>url. Rejected" "''c1''" "''r1''" "''sdp''" "[]"] own
  show ?thesis
    by simp
qed

text \<open>
  A relay event that carries no object never reaches the transport: the destructuring
  raises a TypeError, and the handler has no \<^verbatim>\<open>try\<close>.
\<close>

lemma relay_without_object_raises:
  "handle resume net sid VoiceOfferNoObject rooms = Inl TypeError \<and>
   handle resume net sid VoiceAnswerNoObject rooms = Inl TypeError \<and>
   handle resume net sid IceCandidateNoObject rooms = Inl TypeError"
  by (simp add: handle_def voice_offer_def voice_answer_def ice_candidate_def)

text \<open>
  C8 (as amended). Every relay event that carries its payload object is handled without
  an exception, whatever the registry, the room identifier and the target are, and leaves
  the registry as it is. The event goes to the connections that are in the transport room
  named by \<^verbatim>\<open>to\<close>, and to no other: to nobody when that room has no member.
\<close>

theorem relay_reaches_room_of_target:
  "handle resume net sid (VoiceOfferEv r X to) rooms = Inr (rooms, [EmitTo to (VoiceOffer sid X r)]) \<and>
   handle resume net sid (VoiceAnswerEv r X to) rooms = Inr (rooms, [EmitTo to (VoiceAnswer sid X r)]) \<and>
   handle resume net sid (IceCandidateEv X to) rooms = Inr (rooms, [EmitTo to (IceCandidate sid X)]) \<and>
   received A c [EmitTo to m] = (if c \<in> A to then [EmitTo to m] else [])"
  by (simp add: handle_def voice_offer_def voice_answer_def ice_candidate_def)

theorem relay_reaches_room_of_target_witness:
  "handle None (\<lambda>url. Rejected) ''c1'' (IceCandidateEv ''cand'' ''gone'') [(''r'', \<lparr>users = [''c1'']\<rparr>)]
     = Inr ([(''r'', \<lparr>users = [''c1'']\<rparr>)], [EmitTo ''gone'' (IceCandidate ''c1'' ''cand'')]) \<and>
   received ((\<lambda>x. {})(''c1'' := {''c1''}, ''r'' := {''c1''})) ''c1''
       [EmitTo ''gone'' (IceCandidate ''c1'' ''cand'')] = []"
  using relay_reaches_room_of_target [of None "\<lambda>url. Rejected" "''c1''" "''r''" "''cand''" "''gone''"
      "[(''r'', \<lparr>users = [''c1'']\<rparr>)]" "(\<lambda>x. {})(''c1'' := {''c1''}, ''r'' := {''c1''})" "''c1''"
      "IceCandidate ''c1'' ''cand''"]
  by simp

text \<open>
  The statement that a target which is no connection gets no delivery fails: the
  connections are \<^verbatim>\<open>a\<close> and \<^verbatim>\<open>b\<close>, the target \<^verbatim>\<open>r\<close> is the room that \<^verbatim>\<open>a\<close>
  has joined, and \<^verbatim>\<open>a\<close> receives the offer that \<^verbatim>\<open>b\<close> sends to \<^verbatim>\<open>r\<close>.
\<close>

theorem relay_to_room_name_is_delivered:
  "\<not> in_own_room ((\<lambda>x. {})(''a'' := {''a''}, ''b'' := {''b''})) ''r'' \<and>
   run None (\<lambda>url. Rejected)
       [(''a'', JoinVoiceRoom ''r''), (''b'', VoiceOfferEv ''r'' ''sdp'' ''r'')] []
     = Inr ([(''r'', \<lparr>users = [''a'']\<rparr>)],
            [SocketJoin ''a'' ''r'', EmitToOthers ''a'' ''r'' (UserJoined ''a''),
             EmitTo ''r'' (VoiceOffer ''b'' ''sdp'' ''r'')]) \<and>
   received ((\<lambda>x. {})(''a'' := {''a''}, ''b'' := {''b''})) ''a''
       [SocketJoin ''a'' ''r'', EmitToOthers ''a'' ''r'' (UserJoined ''a''),
        EmitTo ''r'' (VoiceOffer ''b'' ''sdp'' ''r'')]
     = [EmitTo ''r'' (VoiceOffer ''b'' ''sdp'' ''r'')]"
  by (simp add: in_own_room_def model_simps)

section \<open>Failures of the finalize hook\<close>

lemma fst_finalize_leave: "fst (finalize_leave resume net r) = finalize_addresses resume r"
  by (simp add: finalize_leave_def finalize_addresses_def tryFinalize_def Let_def
      split: option.splits sum.splits)

lemma fst_finalize_disconnect: "fst (finalize_disconnect resume net r) = finalize_addresses resume r"
  by (simp add: finalize_disconnect_def finalize_addresses_def Let_def
      split: option.splits sum.splits)

lemma snd_finalize_leave: "snd (finalize_leave resume net r) = Inr ()"
  by (simp add: finalize_leave_def tryFinalize_def catch_all_def Let_def split: option.splits sum.splits)

lemma snd_finalize_disconnect: "snd (finalize_disconnect resume net r) = Inr ()"
  by (simp add: finalize_disconnect_def catch_all_def Let_def split: option.splits sum.splits)

lemma length_finalize_addresses: "length (finalize_addresses resume r) \<le> 1"
  by (simp add: finalize_addresses_def split: option.splits sum.splits)

lemma leave_try_net:
  "leave_try resume net sid r rooms = leave_try resume net' sid r rooms"
  by (simp add: leave_try_def fst_finalize_leave Let_def split: property.splits)

lemma disconnect_net:
  "disconnect resume net sid rooms = disconnect resume net' sid rooms"
proof (induction rooms)
  case Nil
  then show ?case by simp
next
  case (Cons p rooms)
  obtain k v where p: "p = (k, v)" by (cases p)
  with Cons show ?case
    by (simp add: Let_def fst_finalize_disconnect)
qed

text \<open>
  C9. Whatever the network does (the request fails, the response has any status, the body
  cannot be read), the promise of the finalize block is fulfilled, never rejected; the
  block requests at most one address, and the same one; and the leave handler and the
  disconnect handler give the same registry and make the same calls. When
  \<^verbatim>\<open>RESUME_BASE\<close> is not set or is empty the block requests nothing and is fulfilled.
\<close>

theorem finalize_failure_is_swallowed:
  "snd (finalize_leave resume net r) = Inr () \<and>
   snd (finalize_disconnect resume net r) = Inr () \<and>
   length (fst (finalize_leave resume net r)) \<le> 1 \<and>
   length (fst (finalize_disconnect resume net r)) \<le> 1 \<and>
   fst (finalize_leave resume net r) = fst (finalize_leave resume net' r) \<and>
   fst (finalize_disconnect resume net r) = fst (finalize_disconnect resume net' r) \<and>
   (leave_voice_room resume net sid r rooms :: js_error + registry \<times> 'p effect list)
     = leave_voice_room resume net' sid r rooms \<and>
   (disconnect resume net sid rooms :: registry \<times> 'p effect list)
     = disconnect resume net' sid rooms \<and>
   finalize_leave None net r = ([], Inr ()) \<and>
   finalize_leave (Some []) net r = ([], Inr ()) \<and>
   finalize_disconnect None net r = ([], Inr ()) \<and>
   finalize_disconnect (Some []) net r = ([], Inr ())"
proof -
  have lv: "(leave_voice_room resume net sid r rooms :: js_error + registry \<times> 'p effect list)
     = leave_voice_room resume net' sid r rooms"
    by (simp add: leave_voice_room_def leave_try_net [of resume net sid r rooms net'])
  have nl: "finalize_leave None net r = ([], Inr ())" "finalize_leave (Some []) net r = ([], Inr ())"
    by (simp_all add: finalize_leave_def catch_all_def)
  have nd: "finalize_disconnect None net r = ([], Inr ())" "finalize_disconnect (Some []) net r = ([], Inr ())"
    by (simp_all add: finalize_disconnect_def catch_all_def)
  have dn: "(disconnect resume net sid rooms :: registry \<times> 'p effect list)
     = disconnect resume net' sid rooms"
    by (rule disconnect_net)
  have le: "length (finalize_addresses resume r) \<le> 1"
    by (rule length_finalize_addresses)
  show ?thesis
    using lv nl nd dn le
    by (simp add: snd_finalize_leave snd_finalize_disconnect fst_finalize_leave
        fst_finalize_disconnect)
qed

theorem finalize_failure_is_swallowed_witness:
  "leave_voice_room (Some ''http://h'') (\<lambda>url. Rejected) ''a'' ''r'' [(''r'', \<lparr>users = [''a'']\<rparr>)]
     = (leave_voice_room (Some ''http://h'')
          (\<lambda>url. Resolved \<lparr>status = 500, json_ok = False, text_ok = False\<rparr>) ''a'' ''r''
          [(''r'', \<lparr>users = [''a'']\<rparr>)] :: js_error + registry \<times> unit effect list) \<and>
   finalize_leave (Some ''http://h'')
       (\<lambda>url. Resolved \<lparr>status = 500, json_ok = False, text_ok = False\<rparr>) ''r''
     = ([''http://h/api/audio/finalize?roomId=r''], Inr ())"
proof -
  have "finalize_leave (Some ''http://h'')
       (\<lambda>url. Resolved \<lparr>status = 500, json_ok = False, text_ok = False\<rparr>) ''r''
     = ([''http://h/api/audio/finalize?roomId=r''], Inr ())"
    by (simp add: model_simps url_simps)
  with finalize_failure_is_swallowed [of "Some ''http://h''" "\<lambda>url. Rejected" "''r''"
      "\<lambda>url. Resolved \<lparr>status = 500, json_ok = False, text_ok = False\<rparr>" "''a''"
      "[(''r'', \<lparr>users = [''a'']\<rparr>)]", where ?'p = unit]
  show ?thesis
    by simp
qed

section \<open>The last leave of a room\<close>

lemma run_append:
  "run resume net (evs1 @ evs2) rooms =
     (case run resume net evs1 rooms of
        Inl e \<Rightarrow> Inl e
      | Inr (rooms1, effs1) \<Rightarrow>
          (case run resume net evs2 rooms1 of
             Inl e \<Rightarrow> Inl e
           | Inr (rooms2, effs2) \<Rightarrow> Inr (rooms2, effs1 @ effs2)))"
proof (induction evs1 arbitrary: rooms)
  case Nil
  then show ?case by (simp split: sum.splits)
next
  case (Cons p evs1)
  obtain sid ev where p: "p = (sid, ev)" by (cases p)
  show ?case
    by (simp add: p Cons.IH split: sum.splits prod.splits)
qed

lemma leave_last_member:
  assumes "participants rooms r = [sid]"
  shows "leave_voice_room resume net sid r rooms =
     Inr (delete_room r rooms,
          [SocketLeave sid r, EmitTo r (UserLeft sid)] @ map Fetch (finalize_addresses resume r))"
proof -
  from assms obtain rm where "map_of rooms r = Some rm" and "users rm = [sid]"
    by (cases "map_of rooms r") (auto simp: participants_def)
  then show ?thesis
    by (simp add: leave_existing fst_finalize_leave)
qed

lemma room_ids_delete_room: "r \<notin> set (room_ids (delete_room r rooms))"
  by (simp add: room_ids_def map_fst_delete_room)

lemma leave_fetches_at_most_once:
  "\<exists>rooms' effs. leave_voice_room resume net sid r rooms = Inr (rooms', effs) \<and>
     length (filter is_fetch effs) \<le> 1"
proof (cases "map_of rooms r")
  case None
  then show ?thesis by (simp add: leave_unknown is_fetch_def)
next
  case (Some rm)
  have "length (filter is_fetch (map Fetch (finalize_addresses resume r))) \<le> 1"
    using length_finalize_addresses [of resume r]
    by (simp add: finalize_addresses_def is_fetch_def split: option.splits)
  with Some show ?thesis
    by (simp add: leave_existing fst_finalize_leave is_fetch_def)
qed

lemma join_leave_cycle:
  assumes "map_of rooms r = None" and "r \<notin> set object_prototype_keys"
  shows "run resume net [(sid, JoinVoiceRoom r), (sid, LeaveVoiceRoom r)] rooms =
     Inr (rooms,
          [SocketJoin sid r, EmitToOthers sid r (UserJoined sid),
           SocketLeave sid r, EmitTo r (UserLeft sid)] @ map Fetch (finalize_addresses resume r)
          :: 'p effect list)"
proof -
  let ?rooms1 = "set_users r [sid] (create_property r \<lparr>users = []\<rparr> rooms)"
  from assms(1) have absent: "r \<notin> set (map fst rooms)"
    by (simp add: map_of_eq_None_iff)
  have "map_of (create_property r \<lparr>users = []\<rparr> rooms) r = Some \<lparr>users = []\<rparr>"
    using absent by (simp add: map_of_create_property)
  then have "participants ?rooms1 r = [sid]"
    by (rule participants_set_users)
  then have "leave_voice_room resume net sid r ?rooms1 =
     Inr (delete_room r ?rooms1,
          [SocketLeave sid r, EmitTo r (UserLeft sid)] @ map Fetch (finalize_addresses resume r)
          :: 'p effect list)"
    by (rule leave_last_member)
  moreover have "delete_room r ?rooms1 = rooms"
    using absent by (simp add: delete_room_set_users delete_room_create_property)
  ultimately show ?thesis
    using assms by (simp add: handle_def join_new_room)
qed

text \<open>
  C5 (as amended). When the only participant of a room leaves it, the room is deleted from
  the registry and the finalize address of the room (the base without its trailing
  slashes, the path and the encoded room identifier) is requested once if
  \<^verbatim>\<open>RESUME_BASE\<close> is a non-empty string and the room identifier holds no unpaired
  surrogate. Nothing is requested if \<^verbatim>\<open>RESUME_BASE\<close> is not set or is empty, and
  nothing if the identifier holds an unpaired surrogate: the address cannot be built
  then, and the block discards the URIError. A leave requests at most one address, a
  disconnect the addresses of the rooms that it empties, and a room that is created and
  emptied again is finalized again. (A room whose name is a property of
  \<^verbatim>\<open>Object.prototype\<close> is never created: the join raises a TypeError.)
\<close>

theorem last_leave_finalizes_once:
  "(participants rooms r = [sid] \<longrightarrow>
      (leave_voice_room resume net sid r rooms :: js_error + registry \<times> 'p effect list) =
        Inr (delete_room r rooms,
             [SocketLeave sid r, EmitTo r (UserLeft sid)] @ map Fetch (finalize_addresses resume r)) \<and>
      r \<notin> set (room_ids (delete_room r rooms))) \<and>
   finalize_addresses None r = [] \<and>
   finalize_addresses (Some []) r = [] \<and>
   (has_unpaired_surrogate r \<longrightarrow> finalize_addresses resume r = []) \<and>
   (base \<noteq> [] \<and> \<not> has_unpaired_surrogate r \<longrightarrow>
      finalize_addresses (Some base) r =
        [strip_trailing_slashes base @ ''/api/audio/finalize?roomId='' @ encode_octets r]) \<and>
   (\<exists>rooms' effs. leave_voice_room resume net sid r rooms = Inr (rooms', effs :: 'p effect list) \<and>
      length (filter is_fetch effs) \<le> 1) \<and>
   filter is_fetch (snd (disconnect resume net sid rooms :: registry \<times> 'p effect list)) =
     concat (map (\<lambda>k. map Fetch (finalize_addresses resume k)) (emptied_by sid rooms)) \<and>
   (map_of rooms r = None \<and> r \<notin> set object_prototype_keys \<longrightarrow>
      run resume net
        [(sid, JoinVoiceRoom r), (sid, LeaveVoiceRoom r),
         (sid', JoinVoiceRoom r), (sid', LeaveVoiceRoom r)] rooms =
      Inr (rooms,
           ([SocketJoin sid r, EmitToOthers sid r (UserJoined sid),
             SocketLeave sid r, EmitTo r (UserLeft sid)] @ map Fetch (finalize_addresses resume r)) @
           ([SocketJoin sid' r, EmitToOthers sid' r (UserJoined sid'),
             SocketLeave sid' r, EmitTo r (UserLeft sid')] @ map Fetch (finalize_addresses resume r))
           :: 'p effect list))"
proof -
  have one: "participants rooms r = [sid] \<longrightarrow>
      (leave_voice_room resume net sid r rooms :: js_error + registry \<times> 'p effect list) =
        Inr (delete_room r rooms,
             [SocketLeave sid r, EmitTo r (UserLeft sid)] @ map Fetch (finalize_addresses resume r)) \<and>
      r \<notin> set (room_ids (delete_room r rooms))"
    by (simp add: leave_last_member room_ids_delete_room)
  have addr: "finalize_addresses None r = []" "finalize_addresses (Some []) r = []"
    "has_unpaired_surrogate r \<longrightarrow> finalize_addresses resume r = []"
    "base \<noteq> [] \<and> \<not> has_unpaired_surrogate r \<longrightarrow>
      finalize_addresses (Some base) r =
        [strip_trailing_slashes base @ ''/api/audio/finalize?roomId='' @ encode_octets r]"
    by (simp_all add: finalize_addresses_def finalize_url_def encodeURIComponent_def
        split: option.splits)
  have most: "\<exists>rooms' effs. leave_voice_room resume net sid r rooms = Inr (rooms', effs :: 'p effect list) \<and>
      length (filter is_fetch effs) \<le> 1"
    by (rule leave_fetches_at_most_once)
  have disc: "filter is_fetch (snd (disconnect resume net sid rooms :: registry \<times> 'p effect list)) =
     concat (map (\<lambda>k. map Fetch (finalize_addresses resume k)) (emptied_by sid rooms))"
    by (simp add: fetch_disconnect fst_finalize_disconnect)
  have again: "map_of rooms r = None \<and> r \<notin> set object_prototype_keys \<longrightarrow>
      run resume net
        [(sid, JoinVoiceRoom r), (sid, LeaveVoiceRoom r),
         (sid', JoinVoiceRoom r), (sid', LeaveVoiceRoom r)] rooms =
      Inr (rooms,
           ([SocketJoin sid r, EmitToOthers sid r (UserJoined sid),
             SocketLeave sid r, EmitTo r (UserLeft sid)] @ map Fetch (finalize_addresses resume r)) @
           ([SocketJoin sid' r, EmitToOthers sid' r (UserJoined sid'),
             SocketLeave sid' r, EmitTo r (UserLeft sid')] @ map Fetch (finalize_addresses resume r))
           :: 'p effect list)"
  proof
    assume a: "map_of rooms r = None \<and> r \<notin> set object_prototype_keys"
    then have n: "map_of rooms r = None" and np: "r \<notin> set object_prototype_keys"
      by simp_all
    have c1: "run resume net [(sid, JoinVoiceRoom r), (sid, LeaveVoiceRoom r)] rooms =
        Inr (rooms, [SocketJoin sid r, EmitToOthers sid r (UserJoined sid),
             SocketLeave sid r, EmitTo r (UserLeft sid)] @ map Fetch (finalize_addresses resume r) :: 'p effect list)"
      using n np by (rule join_leave_cycle)
    have c2: "run resume net [(sid', JoinVoiceRoom r), (sid', LeaveVoiceRoom r)] rooms =
        Inr (rooms, [SocketJoin sid' r, EmitToOthers sid' r (UserJoined sid'),
             SocketLeave sid' r, EmitTo r (UserLeft sid')] @ map Fetch (finalize_addresses resume r) :: 'p effect list)"
      using n np by (rule join_leave_cycle)
    have "run resume net
        ([(sid, JoinVoiceRoom r), (sid, LeaveVoiceRoom r)] @
         [(sid', JoinVoiceRoom r), (sid', LeaveVoiceRoom r)]) rooms =
      Inr (rooms,
           ([SocketJoin sid r, EmitToOthers sid r (UserJoined sid),
             SocketLeave sid r, EmitTo r (UserLeft sid)] @ map Fetch (finalize_addresses resume r)) @
           ([SocketJoin sid' r, EmitToOthers sid' r (UserJoined sid'),
             SocketLeave sid' r, EmitTo r (UserLeft sid')] @ map Fetch (finalize_addresses resume r))
           :: 'p effect list)"
      unfolding run_append c1 by (simp only: c2 sum.case prod.case)
    then show "run resume net
        [(sid, JoinVoiceRoom r), (sid, LeaveVoiceRoom r),
         (sid', JoinVoiceRoom r), (sid', LeaveVoiceRoom r)] rooms =
      Inr (rooms,
           ([SocketJoin sid r, EmitToOthers sid r (UserJoined sid),
             SocketLeave sid r, EmitTo r (UserLeft sid)] @ map Fetch (finalize_addresses resume r)) @
           ([SocketJoin sid' r, EmitToOthers sid' r (UserJoined sid'),
             SocketLeave sid' r, EmitTo r (UserLeft sid')] @ map Fetch (finalize_addresses resume r))
           :: 'p effect list)"
      by simp
  qed
  from one addr most disc again show ?thesis
    by blast
qed

theorem last_leave_finalizes_once_witness:
  "participants [(''r'', \<lparr>users = [''a'']\<rparr>)] ''r'' = [''a''] \<and>
   leave_voice_room (Some ''http://h/'') (\<lambda>url. Rejected) ''a'' ''r'' [(''r'', \<lparr>users = [''a'']\<rparr>)]
     = Inr ([], [SocketLeave ''a'' ''r'', EmitTo ''r'' (UserLeft ''a''),
                 Fetch ''http://h/api/audio/finalize?roomId=r'' :: unit effect]) \<and>
   map_of [] ''r'' = (None :: room option) \<and> ''r'' \<notin> set object_prototype_keys \<and>
   run (Some ''http://h/'') (\<lambda>url. Rejected)
       [(''a'', JoinVoiceRoom ''r''), (''a'', LeaveVoiceRoom ''r''),
        (''b'', JoinVoiceRoom ''r''), (''b'', LeaveVoiceRoom ''r'')] []
     = Inr ([], [SocketJoin ''a'' ''r'', EmitToOthers ''a'' ''r'' (UserJoined ''a''),
                 SocketLeave ''a'' ''r'', EmitTo ''r'' (UserLeft ''a''),
                 Fetch ''http://h/api/audio/finalize?roomId=r'',
                 SocketJoin ''b'' ''r'', EmitToOthers ''b'' ''r'' (UserJoined ''b''),
                 SocketLeave ''b'' ''r'', EmitTo ''r'' (UserLeft ''b''),
                 Fetch ''http://h/api/audio/finalize?roomId=r'' :: unit effect])"
proof -
  have p: "participants [(''r'', \<lparr>users = [''a'']\<rparr>)] ''r'' = [''a'']"
    by (simp add: participants_def)
  have n: "map_of [] ''r'' = (None :: room option) \<and> ''r'' \<notin> set object_prototype_keys"
    by (simp add: object_prototype_keys_def)
  have a: "finalize_addresses (Some ''http://h/'') ''r'' = [''http://h/api/audio/finalize?roomId=r'']"
    by (simp add: finalize_addresses_def url_simps)
  have d: "delete_room ''r'' [(''r'', \<lparr>users = [''a'']\<rparr>)] = []"
    by (simp add: delete_room_def)
  from last_leave_finalizes_once [of "[(''r'', \<lparr>users = [''a'']\<rparr>)]" "''r''" "''a''"
      "Some ''http://h/''" "\<lambda>url. Rejected" "''http://h/''" "''b''", where ?'p = unit] p
  have first: "leave_voice_room (Some ''http://h/'') (\<lambda>url. Rejected) ''a'' ''r'' [(''r'', \<lparr>users = [''a'']\<rparr>)]
     = Inr ([], [SocketLeave ''a'' ''r'', EmitTo ''r'' (UserLeft ''a''),
                 Fetch ''http://h/api/audio/finalize?roomId=r'' :: unit effect])"
    by (simp add: a d)
  from last_leave_finalizes_once [of "[]" "''r''" "''a''"
      "Some ''http://h/''" "\<lambda>url. Rejected" "''http://h/''" "''b''", where ?'p = unit] n
  have second: "run (Some ''http://h/'') (\<lambda>url. Rejected)
       [(''a'', JoinVoiceRoom ''r''), (''a'', LeaveVoiceRoom ''r''),
        (''b'', JoinVoiceRoom ''r''), (''b'', LeaveVoiceRoom ''r'')] []
     = Inr ([], [SocketJoin ''a'' ''r'', EmitToOthers ''a'' ''r'' (UserJoined ''a''),
                 SocketLeave ''a'' ''r'', EmitTo ''r'' (UserLeft ''a''),
                 Fetch ''http://h/api/audio/finalize?roomId=r'',
                 SocketJoin ''b'' ''r'', EmitToOthers ''b'' ''r'' (UserJoined ''b''),
                 SocketLeave ''b'' ''r'', EmitTo ''r'' (UserLeft ''b''),
                 Fetch ''http://h/api/audio/finalize?roomId=r'' :: unit effect])"
    by (simp add: a)
  from p n first second show ?thesis
    by simp
qed

text \<open>
  The statement that one request goes to \<^verbatim>\<open>RESUME_BASE\<close> followed by the path whenever
  a base is configured fails twice. For a base that ends in a slash the request goes to
  another address: with the base \<^verbatim>\<open>http://h/\<close> it goes to
  \<^verbatim>\<open>http://h/api/audio/finalize?roomId=r\<close>. For a room whose identifier is the code unit
  \<^verbatim>\<open>D800\<close> alone no request is made at all, although the base is set.
\<close>

theorem last_leave_requests_normalised_address:
  "participants [(''r'', \<lparr>users = [''a'']\<rparr>)] ''r'' = [''a''] \<and>
   leave_voice_room (Some ''http://h/'') (\<lambda>url. Rejected) ''a'' ''r'' [(''r'', \<lparr>users = [''a'']\<rparr>)]
     = Inr ([], [SocketLeave ''a'' ''r'', EmitTo ''r'' (UserLeft ''a''),
                 Fetch ''http://h/api/audio/finalize?roomId=r'' :: unit effect]) \<and>
   ''http://h/'' @ ''/api/audio/finalize?roomId='' @ encode_octets ''r''
     = ''http://h//api/audio/finalize?roomId=r'' \<and>
   ''http://h/api/audio/finalize?roomId=r'' \<noteq> ''http://h//api/audio/finalize?roomId=r'' \<and>
   participants [([CHR 0xED, CHR 0xA0, CHR 0x80], \<lparr>users = [''a'']\<rparr>)] [CHR 0xED, CHR 0xA0, CHR 0x80]
     = [''a''] \<and>
   leave_voice_room (Some ''http://h'') (\<lambda>url. Rejected) ''a'' [CHR 0xED, CHR 0xA0, CHR 0x80]
       [([CHR 0xED, CHR 0xA0, CHR 0x80], \<lparr>users = [''a'']\<rparr>)]
     = Inr ([], [SocketLeave ''a'' [CHR 0xED, CHR 0xA0, CHR 0x80],
                 EmitTo [CHR 0xED, CHR 0xA0, CHR 0x80] (UserLeft ''a'') :: unit effect])"
  by (simp add: participants_def model_simps url_simps)

end
